theory Spec2Isabelle
  imports Main "HOL-Library.Word"
begin

section \<open>Architecture descriptor (revamb.h)\<close>

text \<open>
  The C++ type \<^verbatim>\<open>unsigned\<close> is a 32-bit word, \<^verbatim>\<open>uint64_t\<close> a 64-bit word.
  \<^verbatim>\<open>llvm::Triple::ArchType\<close> is an enumeration of LLVM, kept as a number.
\<close>

datatype EndianessType = LittleEndian | BigEndian

record Architecture =
  Type :: nat
  InstructionAlignment :: "32 word"
  DefaultAlignment :: "32 word"
  Endianess :: EndianessType
  PointerSize :: "32 word"
  SyscallHelper :: string
  SyscallNumberRegister :: string
  NoReturnSyscalls :: "64 word list"
  DelaySlotSize :: "32 word"

text \<open>
  The default constructor (revamb.h, lines 55-60) initialises five members. The string
  and array members are default-constructed (empty); \<^verbatim>\<open>Type\<close> is left uninitialised,
  so its indeterminate value is a parameter here.
\<close>

definition Architecture_default :: "nat \<Rightarrow> Architecture" where
  "Architecture_default ty =
     \<lparr> Type = ty,
       InstructionAlignment = 1,
       DefaultAlignment = 1,
       Endianess = LittleEndian,
       PointerSize = 64,
       SyscallHelper = [],
       SyscallNumberRegister = [],
       NoReturnSyscalls = [],
       DelaySlotSize = 0 \<rparr>"

text \<open>The nine-argument constructor (revamb.h, lines 62-79).\<close>

definition Architecture_init ::
  "32 word \<Rightarrow> 32 word \<Rightarrow> 32 word \<Rightarrow> bool \<Rightarrow> 32 word \<Rightarrow> string \<Rightarrow> string \<Rightarrow> 64 word list
     \<Rightarrow> 32 word \<Rightarrow> Architecture" where
  "Architecture_init ty ia da IsLittleEndian ps sh snr nrs dss =
     \<lparr> Type = unat ty,
       InstructionAlignment = ia,
       DefaultAlignment = da,
       Endianess = (if IsLittleEndian then LittleEndian else BigEndian),
       PointerSize = ps,
       SyscallHelper = sh,
       SyscallNumberRegister = snr,
       NoReturnSyscalls = nrs,
       DelaySlotSize = dss \<rparr>"

definition instructionAlignment :: "Architecture \<Rightarrow> 32 word" where
  "instructionAlignment A = InstructionAlignment A"

definition defaultAlignment :: "Architecture \<Rightarrow> 32 word" where
  "defaultAlignment A = DefaultAlignment A"

definition endianess :: "Architecture \<Rightarrow> EndianessType" where
  "endianess A = Endianess A"

definition pointerSize :: "Architecture \<Rightarrow> 32 word" where
  "pointerSize A = PointerSize A"

definition isLittleEndian :: "Architecture \<Rightarrow> bool" where
  "isLittleEndian A = (Endianess A = LittleEndian)"

definition syscallHelper :: "Architecture \<Rightarrow> string" where
  "syscallHelper A = SyscallHelper A"

definition syscallNumberRegister :: "Architecture \<Rightarrow> string" where
  "syscallNumberRegister A = SyscallNumberRegister A"

definition noReturnSyscalls :: "Architecture \<Rightarrow> 64 word list" where
  "noReturnSyscalls A = NoReturnSyscalls A"

definition delaySlotSize :: "Architecture \<Rightarrow> 32 word" where
  "delaySlotSize A = DelaySlotSize A"

section \<open>The generated code: blocks, instructions, marker calls\<close>

text \<open>Classification of basic blocks (revamb.h, lines 34-43).\<close>

datatype BlockType =
  UntypedBlock | DispatcherBlock | AnyPCBlock | UnexpectedPCBlock | JumpTargetBlock

text \<open>
  The part of the LLVM IR the pass looks at. An operand is either a constant integer
  (64 bits, the width of the marker's arguments) or some other value. An instruction is
  either a call, with its called function (\<open>None\<close> for an indirect call, where
  \<^verbatim>\<open>getCalledFunction()\<close> is null) and its argument operands, or anything else.
\<close>

datatype Value = ConstantInt "64 word" | OtherValue

datatype Instruction =
  CallInst (getCalledFunction: "string option") (argOperands: "Value list")
  | OtherInst

text \<open>
  A basic block: its instructions in order, its predecessors in the order (and with the
  repetitions) in which \<^verbatim>\<open>predecessors(BB)\<close> lists them, and the block type that
  \<^verbatim>\<open>getType(&BB)\<close> reports. \<^verbatim>\<open>getType\<close> is declared in generatedcodebasicinfo.h,
  a header outside the files modelled here, so its result is a datum of the block.
  Blocks are referred to by their position in the function (the pointer
  \<^verbatim>\<open>BasicBlock *\<close>), instructions by block and position (the pointer \<^verbatim>\<open>Instruction *\<close>).
\<close>

record BasicBlock =
  insts :: "Instruction list"
  predecessors :: "nat list"
  getType :: BlockType

type_synonym Function = "BasicBlock list"

type_synonym InstRef = "nat \<times> nat"

definition emptyBB :: BasicBlock where
  "emptyBB = \<lparr> insts = [], predecessors = [], getType = UntypedBlock \<rparr>"

text \<open>
  Dereferencing a block pointer. Every pointer of the source points into the function;
  a position outside of it reads as an empty block without predecessors.
\<close>

definition getBlock :: "Function \<Rightarrow> nat \<Rightarrow> BasicBlock" where
  "getBlock F b = (if b < length F then F ! b else emptyBB)"

definition getInst :: "Function \<Rightarrow> InstRef \<Rightarrow> Instruction" where
  "getInst F r =
     (let is = insts (getBlock F (fst r))
      in if snd r < length is then is ! (snd r) else OtherInst)"

text \<open>Every assertion and checked cast of the source is a fault of its own.\<close>

datatype fault =
  MalformedMetadata
  | DuplicateDispatcher
  | DuplicateAnyPC
  | DuplicateUnexpectedPC
  | NotACall
  | NotNewPC
  | BadOperand
  | MissingSingleton
  | DispatcherReached
  | ZeroSize

text \<open>
  The test of lines 97-100: the instruction is a call, its callee is known and is named
  \<^verbatim>\<open>newpc\<close>.
\<close>

fun isNewPC :: "Instruction \<Rightarrow> bool" where
  "isNewPC (CallInst Callee args) = (Callee \<noteq> None \<and> Callee = Some ''newpc'')"
| "isNewPC OtherInst = False"

text \<open>
  Modelled from the spec: \<^verbatim>\<open>getLimitedValue(Value *)\<close> is a helper of the repository
  defined outside the files modelled here. A marker call carries its address and size as
  64-bit integer constants; the helper casts the operand to a constant integer (a
  checked cast, which aborts on anything else) and reads its value.
\<close>

fun getLimitedValue :: "Value \<Rightarrow> fault + 64 word" where
  "getLimitedValue (ConstantInt v) = Inr v"
| "getLimitedValue OtherValue = Inl BadOperand"

text \<open>\<^verbatim>\<open>getLimitedValue(Call->getArgOperand(n))\<close>; LLVM asserts that the operand exists.\<close>

definition getArgValue :: "Value list \<Rightarrow> nat \<Rightarrow> fault + 64 word" where
  "getArgValue args n = (if n < length args then getLimitedValue (args ! n) else Inl BadOperand)"

section \<open>Block classification (generatedcodebasicinfo.cpp, runOnFunction)\<close>

text \<open>
  The members of the pass that \<^verbatim>\<open>runOnFunction\<close> writes. A null block pointer is
  \<open>None\<close>; \<^verbatim>\<open>JumpTargets\<close> is a \<^verbatim>\<open>std::map\<close> from addresses to blocks. The program
  counter variable is kept by its name.
\<close>

record GeneratedCodeBasicInfo =
  GCBI_DelaySlotSize :: "32 word"
  PC :: string
  Dispatcher :: "nat option"
  AnyPC :: "nat option"
  UnexpectedPC :: "nat option"
  JumpTargets :: "64 word \<rightharpoonup> nat"

text \<open>
  Modelled from the spec: the constructor of the pass is in generatedcodebasicinfo.h,
  a header outside the files modelled here. Before classification no singleton block is
  recorded and the table of jump targets is empty.
\<close>

definition initialInfo :: GeneratedCodeBasicInfo where
  "initialInfo =
     \<lparr> GCBI_DelaySlotSize = 0, PC = [], Dispatcher = None, AnyPC = None,
       UnexpectedPC = None, JumpTargets = Map.empty \<rparr>"

text \<open>
  Modelled from the spec: the accessor \<open>jumpTargetFor\<close> is declared in the same
  header; it looks an address up in the table.
\<close>

definition jumpTargetFor :: "GeneratedCodeBasicInfo \<Rightarrow> 64 word \<Rightarrow> nat option" where
  "jumpTargetFor G a = JumpTargets G a"

text \<open>
  Lines 58-60: the first instruction of a jump target is cast to a call (checked), the
  call is asserted to be one to \<^verbatim>\<open>newpc\<close> (a call without a known callee fails
  there as well), and its first argument is read.
\<close>

definition jumpTargetAddress :: "BasicBlock \<Rightarrow> fault + 64 word" where
  "jumpTargetAddress BB =
     (case insts BB of
        [] \<Rightarrow> Inl NotACall
      | Call # rest \<Rightarrow>
          (case Call of
             OtherInst \<Rightarrow> Inl NotACall
           | CallInst Callee args \<Rightarrow>
               if Callee = Some ''newpc'' then getArgValue args 0 else Inl NotNewPC))"

text \<open>The body of the loop over the blocks (lines 42-67), for the block at position \<open>b\<close>.\<close>

definition visitBlock ::
  "GeneratedCodeBasicInfo \<Rightarrow> nat \<Rightarrow> BasicBlock \<Rightarrow> fault + GeneratedCodeBasicInfo" where
  "visitBlock G b BB =
     (if insts BB \<noteq> [] then
        (case getType BB of
           DispatcherBlock \<Rightarrow>
             if Dispatcher G = None then Inr (G\<lparr> Dispatcher := Some b \<rparr>)
             else Inl DuplicateDispatcher
         | AnyPCBlock \<Rightarrow>
             if AnyPC G = None then Inr (G\<lparr> AnyPC := Some b \<rparr>)
             else Inl DuplicateAnyPC
         | UnexpectedPCBlock \<Rightarrow>
             if UnexpectedPC G = None then Inr (G\<lparr> UnexpectedPC := Some b \<rparr>)
             else Inl DuplicateUnexpectedPC
         | JumpTargetBlock \<Rightarrow>
             (case jumpTargetAddress BB of
                Inl e \<Rightarrow> Inl e
              | Inr a \<Rightarrow> Inr (G\<lparr> JumpTargets := (JumpTargets G)(a \<mapsto> b) \<rparr>))
         | UntypedBlock \<Rightarrow> Inr G)
      else Inr G)"

text \<open>The loop of line 41, over the blocks from position \<open>b\<close> on.\<close>

fun visitBlocks ::
  "GeneratedCodeBasicInfo \<Rightarrow> nat \<Rightarrow> BasicBlock list \<Rightarrow> fault + GeneratedCodeBasicInfo" where
  "visitBlocks G b [] = Inr G"
| "visitBlocks G b (BB # rest) =
     (case visitBlock G b BB of
        Inl e \<Rightarrow> Inl e
      | Inr G' \<Rightarrow> visitBlocks G' (Suc b) rest)"

text \<open>
  \<^verbatim>\<open>runOnFunction\<close>. Lines 32-39 read the delay slot size and the name of the program
  counter from the module's metadata record \<^verbatim>\<open>revamb.input.architecture\<close>, through
  LLVM and a helper class defined outside the files modelled here: \<open>Tuple\<close> is what
  they yield, \<open>None\<close> when the record is missing or malformed (the reads then fail).
  Assertions are taken as enabled. The boolean the pass returns (always false: the
  function is not modified) is left out.
\<close>

definition runOnFunction ::
  "GeneratedCodeBasicInfo \<Rightarrow> (32 word \<times> string) option \<Rightarrow> Function
     \<Rightarrow> fault + GeneratedCodeBasicInfo" where
  "runOnFunction G Tuple F =
     (case Tuple of
        None \<Rightarrow> Inl MalformedMetadata
      | Some md \<Rightarrow>
          (case visitBlocks (G\<lparr> GCBI_DelaySlotSize := fst md, PC := snd md \<rparr>) 0 F of
             Inl e \<Rightarrow> Inl e
           | Inr G' \<Rightarrow>
               if Dispatcher G' \<noteq> None \<and> AnyPC G' \<noteq> None \<and> UnexpectedPC G' \<noteq> None
               then Inr G' else Inl MissingSingleton))"

section \<open>Recovering the program counter (generatedcodebasicinfo.cpp, getPC)\<close>

text \<open>
  A reverse iterator into a block is the pair of the block and the position \<open>k\<close> of
  its base: it designates the instruction at position \<open>k - 1\<close>, \<^verbatim>\<open>rbegin()\<close> is the
  length of the block and \<^verbatim>\<open>rend()\<close> is \<open>0\<close>.

  The loop of lines 96-110 from such an iterator: the position of the first call to
  \<^verbatim>\<open>newpc\<close> met going backward, if any.
\<close>

fun findMarker :: "Instruction list \<Rightarrow> nat \<Rightarrow> nat option" where
  "findMarker is 0 = None"
| "findMarker is (Suc i) =
     (if i < length is \<and> isNewPC (is ! i) then Some i else findMarker is i)"

text \<open>
  The local variables of \<^verbatim>\<open>getPC\<close>. \<open>Enqueued\<close> is not in the source: it records
  every iterator ever pushed on the work list, in order.
\<close>

record search_state =
  NewPCCall :: "InstRef option"
  Visited :: "nat set"
  WorkList :: "(nat \<times> nat) list"
  Enqueued :: "(nat \<times> nat) list"

text \<open>
  How the loop of line 89 is left: by the return of line 104 (with the marker just
  met), by the assertion of line 117, or because the work list is empty.
\<close>

datatype search_exit = TwoMarkers InstRef | AssertDispatcher | WorkListEmpty

text \<open>The loop of lines 122-129 over the predecessors.\<close>

fun pushPredecessors :: "Function \<Rightarrow> nat list \<Rightarrow> search_state \<Rightarrow> search_state" where
  "pushPredecessors F [] st = st"
| "pushPredecessors F (P # Ps) st =
     pushPredecessors F Ps
       (if insts (getBlock F P) \<noteq> [] \<and> P \<notin> Visited st
        then st\<lparr> WorkList := WorkList st @ [(P, length (insts (getBlock F P)))],
                 Visited := insert P (Visited st),
                 Enqueued := Enqueued st @ [(P, length (insts (getBlock F P)))] \<rparr>
        else st)"

definition allPredecessors :: "Function \<Rightarrow> nat set" where
  "allPredecessors F = (\<Union>BB \<in> set F. set (predecessors BB))"

text \<open>
  The loop of lines 89-132. \<open>D\<close> is the member \<^verbatim>\<open>Dispatcher\<close>. Inside the branch
  of line 113 \<^verbatim>\<open>NewPCCall\<close> is null, so the assertion of line 117 fails exactly when a
  predecessor is the dispatcher.
\<close>

function searchLoop ::
  "Function \<Rightarrow> nat option \<Rightarrow> search_state \<Rightarrow> search_exit \<times> search_state" where
  "searchLoop F D st =
     (case WorkList st of
        [] \<Rightarrow> (WorkListEmpty, st)
      | I # rest \<Rightarrow>
          (case findMarker (insts (getBlock F (fst I))) (snd I) of
             Some i \<Rightarrow>
               (if NewPCCall st \<noteq> None
                then (TwoMarkers (fst I, i), st\<lparr> WorkList := rest \<rparr>)
                else searchLoop F D (st\<lparr> WorkList := rest, NewPCCall := Some (fst I, i) \<rparr>))
           | None \<Rightarrow>
               (if NewPCCall st = None
                then (if \<exists>P \<in> set (predecessors (getBlock F (fst I))). Some P = D
                      then (AssertDispatcher, st\<lparr> WorkList := rest \<rparr>)
                      else searchLoop F D
                             (pushPredecessors F (predecessors (getBlock F (fst I)))
                                (st\<lparr> WorkList := rest \<rparr>)))
                else searchLoop F D (st\<lparr> WorkList := rest \<rparr>))))"
  by pat_completeness auto
termination
proof (relation "measure (\<lambda>(F, D, st). card (allPredecessors F - Visited st) + length (WorkList st))")
  show "wf (measure (\<lambda>(F, D, st). card (allPredecessors F - Visited st) + length (WorkList st)))"
    by simp
next
  fix F :: Function and D :: "nat option" and st :: search_state and I rest i
  assume "WorkList st = I # rest"
  then show "((F, D, st\<lparr>WorkList := rest, NewPCCall := Some (fst I, i)\<rparr>), F, D, st)
        \<in> measure (\<lambda>(F, D, st). card (allPredecessors F - Visited st) + length (WorkList st))"
    by simp
next
  fix F :: Function and D :: "nat option" and st :: search_state and I rest
  assume wl: "WorkList st = I # rest"
  have fin: "finite (allPredecessors F)"
    by (simp add: allPredecessors_def)
  have sub: "set (predecessors (getBlock F (fst I))) \<subseteq> allPredecessors F"
  proof (cases "fst I < length F")
    case True
    then have "F ! fst I \<in> set F" by simp
    then have "set (predecessors (F ! fst I)) \<subseteq> allPredecessors F"
      unfolding allPredecessors_def by blast
    then show ?thesis using True by (simp add: getBlock_def)
  next
    case False
    then show ?thesis by (simp add: getBlock_def emptyBB_def)
  qed
  have push: "set Ps \<subseteq> allPredecessors F \<Longrightarrow>
      card (allPredecessors F - Visited (pushPredecessors F Ps s))
        + length (WorkList (pushPredecessors F Ps s))
      = card (allPredecessors F - Visited s) + length (WorkList s)" for Ps s
  proof (induction Ps arbitrary: s)
    case Nil
    then show ?case by simp
  next
    case (Cons P Ps)
    have P: "P \<in> allPredecessors F" using Cons.prems by simp
    show ?case
    proof (cases "insts (getBlock F P) \<noteq> [] \<and> P \<notin> Visited s")
      case True
      let ?s = "s\<lparr> WorkList := WorkList s @ [(P, length (insts (getBlock F P)))],
                 Visited := insert P (Visited s),
                 Enqueued := Enqueued s @ [(P, length (insts (getBlock F P)))] \<rparr>"
      have eq: "pushPredecessors F (P # Ps) s = pushPredecessors F Ps ?s"
        using True by simp
      have "P \<in> allPredecessors F - Visited s" using True P by simp
      then have "card (allPredecessors F - Visited s)
          = Suc (card (allPredecessors F - insert P (Visited s)))"
        using fin by (metis Diff_insert card_Suc_Diff1 finite_Diff)
      then have step: "card (allPredecessors F - Visited ?s) + length (WorkList ?s)
          = card (allPredecessors F - Visited s) + length (WorkList s)"
        by simp
      have "set Ps \<subseteq> allPredecessors F" using Cons.prems by simp
      from Cons.IH [OF this, of ?s] show ?thesis
        unfolding eq step .
    next
      case False
      then show ?thesis using Cons.IH [of s] Cons.prems by auto
    qed
  qed
  show "((F, D, pushPredecessors F (predecessors (getBlock F (fst I))) (st\<lparr>WorkList := rest\<rparr>)),
          F, D, st)
        \<in> measure (\<lambda>(F, D, st). card (allPredecessors F - Visited st) + length (WorkList st))"
    using push [OF sub, of "st\<lparr>WorkList := rest\<rparr>"] wl by simp
next
  fix F :: Function and D :: "nat option" and st :: search_state and I rest
  assume "WorkList st = I # rest"
  then show "((F, D, st\<lparr>WorkList := rest\<rparr>), F, D, st)
        \<in> measure (\<lambda>(F, D, st). card (allPredecessors F - Visited st) + length (WorkList st))"
    by simp
qed

text \<open>
  Lines 84-87: the first iterator. For the first instruction of a block it is
  \<^verbatim>\<open>--rend()\<close>, which designates that first instruction; otherwise it is the reverse
  iterator made from the instruction, which designates the one before it.
\<close>

definition initialCursor :: "InstRef \<Rightarrow> nat \<times> nat" where
  "initialCursor TheInstruction =
     (if snd TheInstruction = 0 then (fst TheInstruction, 1) else TheInstruction)"

definition initialState :: "InstRef \<Rightarrow> search_state" where
  "initialState TheInstruction =
     \<lparr> NewPCCall = None, Visited = {}, WorkList = [initialCursor TheInstruction],
       Enqueued = [initialCursor TheInstruction] \<rparr>"

definition search :: "Function \<Rightarrow> nat option \<Rightarrow> InstRef \<Rightarrow> search_exit \<times> search_state" where
  "search F D TheInstruction = searchLoop F D (initialState TheInstruction)"

text \<open>Lines 138-141, on the call that \<^verbatim>\<open>NewPCCall\<close> points to.\<close>

fun readMarker :: "Instruction \<Rightarrow> fault + (64 word \<times> 64 word)" where
  "readMarker (CallInst Callee args) =
     (case getArgValue args 0 of
        Inl e \<Rightarrow> Inl e
      | Inr pc \<Rightarrow>
          (case getArgValue args 1 of
             Inl e \<Rightarrow> Inl e
           | Inr Size \<Rightarrow> if Size \<noteq> 0 then Inr (pc, Size) else Inl ZeroSize))"
| "readMarker OtherInst = Inl NotACall"

text \<open>
  What \<^verbatim>\<open>getPC\<close> yields for each way of leaving the loop: \<open>(0, 0)\<close> at line 104,
  the failed assertion of line 117, and lines 134-141 after the loop.
\<close>

definition result :: "Function \<Rightarrow> search_exit \<times> search_state \<Rightarrow> fault + (64 word \<times> 64 word)" where
  "result F r =
     (case r of
        (TwoMarkers m, st) \<Rightarrow> Inr (0, 0)
      | (AssertDispatcher, st) \<Rightarrow> Inl DispatcherReached
      | (WorkListEmpty, st) \<Rightarrow>
          (case NewPCCall st of
             None \<Rightarrow> Inr (0, 0)
           | Some m \<Rightarrow> readMarker (getInst F m)))"

text \<open>
  \<^verbatim>\<open>getPC\<close>: a pair of address and size, \<open>(0, 0)\<close> when the program counter is not
  known, or a failed assertion.
\<close>

definition getPC ::
  "GeneratedCodeBasicInfo \<Rightarrow> Function \<Rightarrow> InstRef \<Rightarrow> fault + (64 word \<times> 64 word)" where
  "getPC G F TheInstruction = result F (search F (Dispatcher G) TheInstruction)"

section \<open>Notions of the specification\<close>

text \<open>
  A marker is reachable backward from an iterator when it is the first one met scanning
  the block backward from there, or when that scan meets no marker and the marker is
  reachable from the end of a non-empty predecessor. This follows the specification's
  wording (a marker reachable on a backward path), not a function of the source.
\<close>

inductive reachMarker :: "Function \<Rightarrow> nat \<times> nat \<Rightarrow> InstRef \<Rightarrow> bool" for F where
  reach_here: "findMarker (insts (getBlock F b)) k = Some i \<Longrightarrow> reachMarker F (b, k) (b, i)"
| reach_back: "findMarker (insts (getBlock F b)) k = None \<Longrightarrow>
         P \<in> set (predecessors (getBlock F b)) \<Longrightarrow>
         insts (getBlock F P) \<noteq> [] \<Longrightarrow>
         reachMarker F (P, length (insts (getBlock F P))) m \<Longrightarrow>
         reachMarker F (b, k) m"

text \<open>
  A block is classified with a type when the loop of \<^verbatim>\<open>runOnFunction\<close> visits it (it
  is not empty) and \<^verbatim>\<open>getType\<close> reports that type; it is a jump target for an address
  when it is classified as a jump target and its leading marker carries that address.
\<close>

definition classifiedAs :: "BasicBlock \<Rightarrow> BlockType \<Rightarrow> bool" where
  "classifiedAs BB t = (insts BB \<noteq> [] \<and> getType BB = t)"

definition jumpTargetAt :: "BasicBlock \<Rightarrow> 64 word \<Rightarrow> bool" where
  "jumpTargetAt BB a = (classifiedAs BB JumpTargetBlock \<and> jumpTargetAddress BB = Inr a)"

text \<open>
  A well-formed function, in the specification's sense: exactly one block of each of
  the three singleton types, and every jump target starts with a marker whose address
  can be read.
\<close>

definition wellFormed :: "Function \<Rightarrow> bool" where
  "wellFormed F =
     (length (filter (\<lambda>BB. classifiedAs BB DispatcherBlock) F) = 1
      \<and> length (filter (\<lambda>BB. classifiedAs BB AnyPCBlock) F) = 1
      \<and> length (filter (\<lambda>BB. classifiedAs BB UnexpectedPCBlock) F) = 1
      \<and> (\<forall>BB \<in> set F. classifiedAs BB JumpTargetBlock \<longrightarrow> \<not> isl (jumpTargetAddress BB)))"

section \<open>Invariants of the search\<close>

text \<open>
  Every iterator pushed after the first one belongs to a non-empty block of the function,
  designates its last instruction, and was pushed when the block was marked as visited:
  no block is pushed twice as a predecessor.
\<close>

definition enqueuedInv :: "Function \<Rightarrow> nat \<times> nat \<Rightarrow> search_state \<Rightarrow> bool" where
  "enqueuedInv F c0 st =
     (\<exists>E. Enqueued st = c0 # E \<and> distinct (map fst E) \<and> fst ` set E \<subseteq> Visited st
          \<and> (\<forall>c \<in> set E. fst c < length F \<and> insts (getBlock F (fst c)) \<noteq> []
                \<and> snd c = length (insts (getBlock F (fst c)))))"

text \<open>
  The invariant of the loop of line 89, for a search that started from the iterator
  \<open>c0\<close>: the blocks on the work list are pairwise distinct; while no marker has been
  found, all of them but the first are marked as visited; once a marker has been found,
  its block is not on the work list any more; and what is reachable from the work list
  is reachable from \<open>c0\<close>.
\<close>

definition searchInv :: "Function \<Rightarrow> nat \<times> nat \<Rightarrow> search_state \<Rightarrow> bool" where
  "searchInv F c0 st =
     (distinct (map fst (WorkList st))
      \<and> (NewPCCall st = None \<longrightarrow> fst ` set (tl (WorkList st)) \<subseteq> Visited st)
      \<and> (\<forall>m. NewPCCall st = Some m \<longrightarrow>
             fst m \<notin> fst ` set (WorkList st) \<and> reachMarker F c0 m)
      \<and> (\<forall>c \<in> set (WorkList st). \<forall>m. reachMarker F c m \<longrightarrow> reachMarker F c0 m)
      \<and> enqueuedInv F c0 st)"

text \<open>
  While no marker has been found, every iterator that has been scanned (the first one,
  or the end of a visited block, not on the work list any more) met no marker, and all
  the non-empty predecessors of its block are marked as visited.
\<close>

definition exploredInv :: "Function \<Rightarrow> nat \<times> nat \<Rightarrow> search_state \<Rightarrow> bool" where
  "exploredInv F c0 st =
     (NewPCCall st = None \<longrightarrow>
        (\<forall>c. (c = c0 \<or> (\<exists>P \<in> Visited st. c = (P, length (insts (getBlock F P)))))
               \<and> c \<notin> set (WorkList st) \<longrightarrow>
             findMarker (insts (getBlock F (fst c))) (snd c) = None
             \<and> (\<forall>P \<in> set (predecessors (getBlock F (fst c))).
                   insts (getBlock F P) \<noteq> [] \<longrightarrow> P \<in> Visited st)))"

section \<open>Example functions\<close>

text \<open>
  The example of the specification: block 0 is the dispatcher, 1 and 2 handle unknown
  program counters, 3 and 4 are jump targets for the addresses 0x1000 and 0x1004, and
  block 3 precedes block 4. The dispatcher precedes every other block.
\<close>

definition exampleFunction :: Function where
  "exampleFunction =
     [ \<lparr> insts = [OtherInst], predecessors = [3, 4], getType = DispatcherBlock \<rparr>,
       \<lparr> insts = [OtherInst], predecessors = [0], getType = AnyPCBlock \<rparr>,
       \<lparr> insts = [OtherInst], predecessors = [0], getType = UnexpectedPCBlock \<rparr>,
       \<lparr> insts = [CallInst (Some ''newpc'') [ConstantInt 0x1000, ConstantInt 4], OtherInst],
         predecessors = [0], getType = JumpTargetBlock \<rparr>,
       \<lparr> insts = [CallInst (Some ''newpc'') [ConstantInt 0x1004, ConstantInt 2], OtherInst],
         predecessors = [3, 0], getType = JumpTargetBlock \<rparr> ]"

definition exampleInfo :: GeneratedCodeBasicInfo where
  "exampleInfo =
     \<lparr> GCBI_DelaySlotSize = 0, PC = ''pc'', Dispatcher = Some 0, AnyPC = Some 1,
       UnexpectedPC = Some 2, JumpTargets = [0x1000 \<mapsto> 3, 0x1004 \<mapsto> 4] \<rparr>"

text \<open>The same, with both jump targets carrying the address 0x1000.\<close>

definition sharedAddress :: Function where
  "sharedAddress =
     [ \<lparr> insts = [OtherInst], predecessors = [3, 4], getType = DispatcherBlock \<rparr>,
       \<lparr> insts = [OtherInst], predecessors = [0], getType = AnyPCBlock \<rparr>,
       \<lparr> insts = [OtherInst], predecessors = [0], getType = UnexpectedPCBlock \<rparr>,
       \<lparr> insts = [CallInst (Some ''newpc'') [ConstantInt 0x1000, ConstantInt 4], OtherInst],
         predecessors = [0], getType = JumpTargetBlock \<rparr>,
       \<lparr> insts = [CallInst (Some ''newpc'') [ConstantInt 0x1000, ConstantInt 2], OtherInst],
         predecessors = [3, 0], getType = JumpTargetBlock \<rparr> ]"

definition sharedAddressInfo :: GeneratedCodeBasicInfo where
  "sharedAddressInfo =
     \<lparr> GCBI_DelaySlotSize = 0, PC = ''pc'', Dispatcher = Some 0, AnyPC = Some 1,
       UnexpectedPC = Some 2, JumpTargets = [0x1000 \<mapsto> 4] \<rparr>"

text \<open>A function with a dispatcher, a block for any program counter and a jump target only.\<close>

definition missingUnexpectedPC :: Function where
  "missingUnexpectedPC =
     [ \<lparr> insts = [OtherInst], predecessors = [2], getType = DispatcherBlock \<rparr>,
       \<lparr> insts = [OtherInst], predecessors = [0], getType = AnyPCBlock \<rparr>,
       \<lparr> insts = [CallInst (Some ''newpc'') [ConstantInt 0x1000, ConstantInt 4], OtherInst],
         predecessors = [0], getType = JumpTargetBlock \<rparr> ]"

text \<open>
  A function with its three singleton blocks in which block 3 is reached from block 4,
  which holds a marker, and from block 5, which holds none and is reached from block 6,
  which holds another marker.
\<close>

definition divergent :: Function where
  "divergent =
     [ \<lparr> insts = [OtherInst], predecessors = [3], getType = DispatcherBlock \<rparr>,
       \<lparr> insts = [OtherInst], predecessors = [0], getType = AnyPCBlock \<rparr>,
       \<lparr> insts = [OtherInst], predecessors = [0], getType = UnexpectedPCBlock \<rparr>,
       \<lparr> insts = [OtherInst, OtherInst], predecessors = [4, 5], getType = UntypedBlock \<rparr>,
       \<lparr> insts = [CallInst (Some ''newpc'') [ConstantInt 0x1000, ConstantInt 4]],
         predecessors = [0], getType = JumpTargetBlock \<rparr>,
       \<lparr> insts = [OtherInst], predecessors = [6], getType = UntypedBlock \<rparr>,
       \<lparr> insts = [CallInst (Some ''newpc'') [ConstantInt 0x2000, ConstantInt 4]],
         predecessors = [0], getType = JumpTargetBlock \<rparr> ]"

definition divergentInfo :: GeneratedCodeBasicInfo where
  "divergentInfo =
     \<lparr> GCBI_DelaySlotSize = 0, PC = ''pc'', Dispatcher = Some 0, AnyPC = Some 1,
       UnexpectedPC = Some 2, JumpTargets = [0x1000 \<mapsto> 4, 0x2000 \<mapsto> 6] \<rparr>"

text \<open>
  A function with its three singleton blocks in which block 4, without a marker, is
  reached from the jump target block 3 and from itself.
\<close>

definition loopBack :: Function where
  "loopBack =
     [ \<lparr> insts = [OtherInst], predecessors = [4], getType = DispatcherBlock \<rparr>,
       \<lparr> insts = [OtherInst], predecessors = [0], getType = AnyPCBlock \<rparr>,
       \<lparr> insts = [OtherInst], predecessors = [0], getType = UnexpectedPCBlock \<rparr>,
       \<lparr> insts = [CallInst (Some ''newpc'') [ConstantInt 0x1000, ConstantInt 4], OtherInst],
         predecessors = [0], getType = JumpTargetBlock \<rparr>,
       \<lparr> insts = [OtherInst, OtherInst], predecessors = [3, 4], getType = UntypedBlock \<rparr> ]"

definition loopBackInfo :: GeneratedCodeBasicInfo where
  "loopBackInfo =
     \<lparr> GCBI_DelaySlotSize = 0, PC = ''pc'', Dispatcher = Some 0, AnyPC = Some 1,
       UnexpectedPC = Some 2, JumpTargets = [0x1000 \<mapsto> 3] \<rparr>"

definition loopBackFinal :: search_state where
  "loopBackFinal =
     \<lparr> NewPCCall = Some (3, 0), Visited = {3, 4}, WorkList = [],
       Enqueued = [(4, 1), (3, 2), (4, 2)] \<rparr>"

text \<open>Block 0 is reached from blocks 1 and 2, each of which holds a marker.\<close>

definition twoPaths :: Function where
  "twoPaths =
     [ \<lparr> insts = [OtherInst, OtherInst], predecessors = [1, 2], getType = UntypedBlock \<rparr>,
       \<lparr> insts = [CallInst (Some ''newpc'') [ConstantInt 0x1000, ConstantInt 4]],
         predecessors = [], getType = JumpTargetBlock \<rparr>,
       \<lparr> insts = [CallInst (Some ''newpc'') [ConstantInt 0x2000, ConstantInt 4]],
         predecessors = [], getType = JumpTargetBlock \<rparr> ]"

text \<open>
  The state of the search in \<open>twoPaths\<close> from the second instruction of block 0, after
  the marker of block 1 has been found and before block 2 is scanned.
\<close>

definition twoPathsState :: search_state where
  "twoPathsState =
     \<lparr> NewPCCall = Some (1, 0), Visited = {1, 2}, WorkList = [(2, 1)],
       Enqueued = [(0, 1), (1, 1), (2, 1)] \<rparr>"

text \<open>
  A function with its three singleton blocks in which block 6 is reached from blocks 4
  and 5, both without a marker and both reached from the jump target block 3: one marker
  on two paths.
\<close>

definition diamond :: Function where
  "diamond =
     [ \<lparr> insts = [OtherInst], predecessors = [6], getType = DispatcherBlock \<rparr>,
       \<lparr> insts = [OtherInst], predecessors = [0], getType = AnyPCBlock \<rparr>,
       \<lparr> insts = [OtherInst], predecessors = [0], getType = UnexpectedPCBlock \<rparr>,
       \<lparr> insts = [CallInst (Some ''newpc'') [ConstantInt 0x3000, ConstantInt 8], OtherInst],
         predecessors = [0], getType = JumpTargetBlock \<rparr>,
       \<lparr> insts = [OtherInst], predecessors = [3], getType = UntypedBlock \<rparr>,
       \<lparr> insts = [OtherInst], predecessors = [3], getType = UntypedBlock \<rparr>,
       \<lparr> insts = [OtherInst, OtherInst], predecessors = [4, 5], getType = UntypedBlock \<rparr> ]"

definition diamondInfo :: GeneratedCodeBasicInfo where
  "diamondInfo =
     \<lparr> GCBI_DelaySlotSize = 0, PC = ''pc'', Dispatcher = Some 0, AnyPC = Some 1,
       UnexpectedPC = Some 2, JumpTargets = [0x3000 \<mapsto> 3] \<rparr>"

text \<open>
  A function with its three singleton blocks in which block 3 is reached from block 4,
  which holds a marker, from block 5, which holds none and is reached from block 7,
  which holds a marker, and from block 6, which holds a marker.
\<close>

definition threePaths :: Function where
  "threePaths =
     [ \<lparr> insts = [OtherInst], predecessors = [3], getType = DispatcherBlock \<rparr>,
       \<lparr> insts = [OtherInst], predecessors = [0], getType = AnyPCBlock \<rparr>,
       \<lparr> insts = [OtherInst], predecessors = [0], getType = UnexpectedPCBlock \<rparr>,
       \<lparr> insts = [OtherInst, OtherInst], predecessors = [4, 5, 6], getType = UntypedBlock \<rparr>,
       \<lparr> insts = [CallInst (Some ''newpc'') [ConstantInt 0x1000, ConstantInt 4]],
         predecessors = [0], getType = JumpTargetBlock \<rparr>,
       \<lparr> insts = [OtherInst], predecessors = [7], getType = UntypedBlock \<rparr>,
       \<lparr> insts = [CallInst (Some ''newpc'') [ConstantInt 0x3000, ConstantInt 4]],
         predecessors = [0], getType = JumpTargetBlock \<rparr>,
       \<lparr> insts = [CallInst (Some ''newpc'') [ConstantInt 0x2000, ConstantInt 4]],
         predecessors = [0], getType = JumpTargetBlock \<rparr> ]"

definition threePathsInfo :: GeneratedCodeBasicInfo where
  "threePathsInfo =
     \<lparr> GCBI_DelaySlotSize = 0, PC = ''pc'', Dispatcher = Some 0, AnyPC = Some 1,
       UnexpectedPC = Some 2, JumpTargets = [0x1000 \<mapsto> 4, 0x3000 \<mapsto> 6, 0x2000 \<mapsto> 7] \<rparr>"

text \<open>
  The state of the search in \<open>divergent\<close> from the second instruction of block 3,
  after the marker of block 4 has been found and before block 5 is scanned.
\<close>

definition divergentState :: search_state where
  "divergentState =
     \<lparr> NewPCCall = Some (4, 0), Visited = {4, 5}, WorkList = [(5, 1)],
       Enqueued = [(3, 1), (4, 1), (5, 1)] \<rparr>"

text \<open>A single block without a marker that is its own predecessor.\<close>

definition selfLoop :: Function where
  "selfLoop =
     [ \<lparr> insts = [OtherInst, OtherInst], predecessors = [0], getType = UntypedBlock \<rparr> ]"

section \<open>Theorems\<close>

declare searchLoop.simps [simp del]

subsection \<open>The backward scan and single steps of the search\<close>

lemma isNewPC_getInst:
  "isNewPC (getInst F (b, j)) \<longleftrightarrow> j < length (insts (getBlock F b)) \<and> isNewPC (insts (getBlock F b) ! j)"
  by (simp add: getInst_def Let_def)

lemma findMarker_Some:
  "findMarker is k = Some j \<Longrightarrow>
     j < k \<and> j < length is \<and> isNewPC (is ! j)
     \<and> (\<forall>j'. j < j' \<and> j' < k \<and> j' < length is \<longrightarrow> \<not> isNewPC (is ! j'))"
proof (induction k)
  case 0
  then show ?case by simp
next
  case (Suc k)
  show ?case
  proof (cases "k < length is \<and> isNewPC (is ! k)")
    case True
    then have "j = k" using Suc.prems by simp
    then show ?thesis using True by auto
  next
    case False
    then have "findMarker is k = Some j" using Suc.prems by auto
    then have IH: "j < k \<and> j < length is \<and> isNewPC (is ! j)
     \<and> (\<forall>j'. j < j' \<and> j' < k \<and> j' < length is \<longrightarrow> \<not> isNewPC (is ! j'))" by (rule Suc.IH)
    show ?thesis
    proof (intro conjI allI impI)
      fix j' assume "j < j' \<and> j' < Suc k \<and> j' < length is"
      then show "\<not> isNewPC (is ! j')" using IH False by (cases "j' = k") auto
    qed (use IH in auto)
  qed
qed

lemma findMarker_None:
  "findMarker is k = None \<longleftrightarrow> (\<forall>j<k. j < length is \<longrightarrow> \<not> isNewPC (is ! j))"
  by (induction k) (auto simp: less_Suc_eq)

lemma findMarker_nearest:
  assumes "j < k" "j < length is" "isNewPC (is ! j)"
    and "\<forall>j'. j < j' \<and> j' < k \<and> j' < length is \<longrightarrow> \<not> isNewPC (is ! j')"
  shows "findMarker is k = Some j"
proof (cases "findMarker is k")
  case None
  then show ?thesis using assms by (simp add: findMarker_None)
next
  case (Some i)
  note S = findMarker_Some [OF Some]
  have "\<not> i < j" using S assms by auto
  moreover have "\<not> j < i" using S assms by auto
  ultimately show ?thesis using Some by simp
qed

lemma searchLoop_Nil: "WorkList st = [] \<Longrightarrow> searchLoop F D st = (WorkListEmpty, st)"
  by (subst searchLoop.simps) simp

lemma searchLoop_first_marker:
  assumes "WorkList st = (b, k) # rest" "NewPCCall st = None"
    and "findMarker (insts (getBlock F b)) k = Some j"
  shows "searchLoop F D st = searchLoop F D (st\<lparr> WorkList := rest, NewPCCall := Some (b, j) \<rparr>)"
  using assms by (subst searchLoop.simps) simp

lemma searchLoop_second_marker:
  assumes "WorkList st = (b, k) # rest" "NewPCCall st = Some m"
    and "findMarker (insts (getBlock F b)) k = Some j"
  shows "searchLoop F D st = (TwoMarkers (b, j), st\<lparr> WorkList := rest \<rparr>)"
  using assms by (subst searchLoop.simps) simp

lemma searchLoop_dispatcher:
  assumes "WorkList st = (b, k) # rest" "NewPCCall st = None"
    and "findMarker (insts (getBlock F b)) k = None"
    and "d \<in> set (predecessors (getBlock F b))"
  shows "searchLoop F (Some d) st = (AssertDispatcher, st\<lparr> WorkList := rest \<rparr>)"
  using assms by (subst searchLoop.simps) auto

lemma searchLoop_push:
  assumes "WorkList st = (b, k) # rest" "NewPCCall st = None"
    and "findMarker (insts (getBlock F b)) k = None"
    and "\<forall>P \<in> set (predecessors (getBlock F b)). Some P \<noteq> D"
  shows "searchLoop F D st =
           searchLoop F D (pushPredecessors F (predecessors (getBlock F b)) (st\<lparr> WorkList := rest \<rparr>))"
  using assms by (subst searchLoop.simps) auto

lemma searchLoop_skip:
  assumes "WorkList st = (b, k) # rest" "NewPCCall st = Some m"
    and "findMarker (insts (getBlock F b)) k = None"
  shows "searchLoop F D st = searchLoop F D (st\<lparr> WorkList := rest \<rparr>)"
  using assms by (subst searchLoop.simps) auto

lemma getPC_first_scan:
  assumes "findMarker (insts (getBlock F b)) (snd (initialCursor (b, i))) = Some j"
  shows "getPC G F (b, i) = readMarker (getInst F (b, j))"
proof -
  have c: "initialCursor (b, i) = (b, snd (initialCursor (b, i)))"
    by (simp add: initialCursor_def)
  have "search F (Dispatcher G) (b, i)
      = searchLoop F (Dispatcher G) ((initialState (b, i))\<lparr> WorkList := [], NewPCCall := Some (b, j) \<rparr>)"
    unfolding search_def
    by (rule searchLoop_first_marker [where k = "snd (initialCursor (b, i))"])
       (use assms c in \<open>simp_all add: initialState_def\<close>)
  also have "\<dots> = (WorkListEmpty, (initialState (b, i))\<lparr> WorkList := [], NewPCCall := Some (b, j) \<rparr>)"
    by (rule searchLoop_Nil) simp
  finally show ?thesis by (simp add: getPC_def result_def)
qed

subsection \<open>Claims about the first scan\<close>

text \<open>
  C9. If the first instruction of a block is a call to \<open>newpc\<close> with the constant
  arguments \<open>A\<close> and \<open>S\<close>, \<open>S\<close> not zero, then \<open>getPC\<close> on the instruction right
  after it returns \<open>(A, S)\<close>. This holds whatever else is reachable backward: the
  search stops exploring at that marker.
\<close>

theorem C9_after_leading_marker:
  assumes "b < length F"
    and "insts (F ! b) = CallInst (Some ''newpc'') (ConstantInt A # ConstantInt S # args) # I # rest"
    and "S \<noteq> 0"
  shows "getPC G F (b, 1) = Inr (A, S)"
proof -
  have "findMarker (insts (getBlock F b)) (snd (initialCursor (b, 1))) = Some 0"
    using assms by (simp add: initialCursor_def getBlock_def)
  then have "getPC G F (b, 1) = readMarker (getInst F (b, 0))"
    by (rule getPC_first_scan)
  then show ?thesis using assms by (simp add: getInst_def getBlock_def getArgValue_def)
qed

theorem C9_after_leading_marker_witness:
  "4 < length exampleFunction
   \<and> insts (exampleFunction ! 4)
       = CallInst (Some ''newpc'') (ConstantInt 0x1004 # ConstantInt 2 # []) # OtherInst # []
   \<and> (2 :: 64 word) \<noteq> 0
   \<and> getPC exampleInfo exampleFunction (4, 1) = Inr (0x1004, 2)"
proof -
  have b: "4 < length exampleFunction"
    by (simp add: exampleFunction_def)
  have i: "insts (exampleFunction ! 4)
       = CallInst (Some ''newpc'') (ConstantInt 0x1004 # ConstantInt 2 # []) # OtherInst # []"
    by (simp add: exampleFunction_def)
  have s: "(2 :: 64 word) \<noteq> 0" by simp
  show ?thesis
    using b i s C9_after_leading_marker [OF b i s, of exampleInfo] by simp
qed

text \<open>
  C2, as the code has it. The first scan of \<open>getPC\<close> on the instruction at position
  \<open>i\<close> of block \<open>b\<close> goes backward from position \<open>i - 1\<close> when \<open>i\<close> is not zero:
  the nearest marker before the point decides the result. When the point is the first
  instruction of its block, the scan examines that instruction itself: if it is a
  marker, it decides the result. Only when none of the positions scanned holds a marker
  does the search look at the predecessors of the block.
\<close>

theorem C2_first_scan:
  "(0 < i \<and> j < i \<and> isNewPC (getInst F (b, j))
      \<and> (\<forall>j'. j < j' \<and> j' < i \<longrightarrow> \<not> isNewPC (getInst F (b, j')))
      \<longrightarrow> getPC G F (b, i) = readMarker (getInst F (b, j)))
   \<and> (isNewPC (getInst F (b, 0)) \<longrightarrow> getPC G F (b, 0) = readMarker (getInst F (b, 0)))
   \<and> ((\<forall>j. j < i \<or> j = 0 \<longrightarrow> \<not> isNewPC (getInst F (b, j)))
      \<longrightarrow> search F D (b, i) =
           (if \<exists>P \<in> set (predecessors (getBlock F b)). Some P = D
            then (AssertDispatcher, (initialState (b, i))\<lparr> WorkList := [] \<rparr>)
            else searchLoop F D
                   (pushPredecessors F (predecessors (getBlock F b))
                      ((initialState (b, i))\<lparr> WorkList := [] \<rparr>))))"
proof (intro conjI impI)
  assume a: "0 < i \<and> j < i \<and> isNewPC (getInst F (b, j))
      \<and> (\<forall>j'. j < j' \<and> j' < i \<longrightarrow> \<not> isNewPC (getInst F (b, j')))"
  then have "findMarker (insts (getBlock F b)) i = Some j"
    by (intro findMarker_nearest) (auto simp: isNewPC_getInst)
  then have "findMarker (insts (getBlock F b)) (snd (initialCursor (b, i))) = Some j"
    using a by (simp add: initialCursor_def)
  then show "getPC G F (b, i) = readMarker (getInst F (b, j))"
    by (rule getPC_first_scan)
next
  assume "isNewPC (getInst F (b, 0))"
  then have "findMarker (insts (getBlock F b)) (Suc 0) = Some 0"
    by (simp add: isNewPC_getInst)
  then have "findMarker (insts (getBlock F b)) (snd (initialCursor (b, 0))) = Some 0"
    by (simp add: initialCursor_def)
  then show "getPC G F (b, 0) = readMarker (getInst F (b, 0))"
    by (rule getPC_first_scan)
next
  assume a: "\<forall>j. j < i \<or> j = 0 \<longrightarrow> \<not> isNewPC (getInst F (b, j))"
  have c: "initialCursor (b, i) = (b, snd (initialCursor (b, i)))"
    by (simp add: initialCursor_def)
  have "\<forall>j < snd (initialCursor (b, i)). \<not> isNewPC (getInst F (b, j))"
    using a by (auto simp: initialCursor_def)
  then have none: "findMarker (insts (getBlock F b)) (snd (initialCursor (b, i))) = None"
    by (simp add: findMarker_None isNewPC_getInst)
  have wl: "WorkList (initialState (b, i)) = (b, snd (initialCursor (b, i))) # []"
    using c by (simp add: initialState_def)
  have np: "NewPCCall (initialState (b, i)) = None"
    by (simp add: initialState_def)
  show "search F D (b, i) =
           (if \<exists>P \<in> set (predecessors (getBlock F b)). Some P = D
            then (AssertDispatcher, (initialState (b, i))\<lparr> WorkList := [] \<rparr>)
            else searchLoop F D
                   (pushPredecessors F (predecessors (getBlock F b))
                      ((initialState (b, i))\<lparr> WorkList := [] \<rparr>)))"
  proof (cases "\<exists>P \<in> set (predecessors (getBlock F b)). Some P = D")
    case True
    then obtain d where d: "d \<in> set (predecessors (getBlock F b))" "D = Some d"
      by auto
    show ?thesis
      using True searchLoop_dispatcher [OF wl np none d(1)] d(2) by (simp add: search_def)
  next
    case False
    then have "\<forall>P \<in> set (predecessors (getBlock F b)). Some P \<noteq> D" by simp
    from searchLoop_push [OF wl np none this] False show ?thesis
      by (simp add: search_def)
  qed
qed

theorem C2_first_scan_witness:
  "isNewPC (getInst exampleFunction (3, 0))
   \<and> getPC exampleInfo exampleFunction (3, 0) = Inr (0x1000, 4)
   \<and> (0 :: nat) < 1 \<and> isNewPC (getInst exampleFunction (4, 0))
   \<and> getPC exampleInfo exampleFunction (4, 1) = Inr (0x1004, 2)
   \<and> \<not> isNewPC (getInst exampleFunction (1, 0))
   \<and> search exampleFunction (Some 0) (1, 0)
       = (AssertDispatcher, (initialState (1, 0))\<lparr> WorkList := [] \<rparr>)"
proof -
  have m3: "isNewPC (getInst exampleFunction (3, 0))"
    by (simp add: exampleFunction_def getInst_def getBlock_def)
  have r3: "readMarker (getInst exampleFunction (3, 0)) = Inr (0x1000, 4)"
    by (simp add: exampleFunction_def getInst_def getBlock_def getArgValue_def)
  have m4: "isNewPC (getInst exampleFunction (4, 0))"
    by (simp add: exampleFunction_def getInst_def getBlock_def)
  have r4: "readMarker (getInst exampleFunction (4, 0)) = Inr (0x1004, 2)"
    by (simp add: exampleFunction_def getInst_def getBlock_def getArgValue_def)
  have n1: "\<forall>j. j < (0 :: nat) \<or> j = 0 \<longrightarrow> \<not> isNewPC (getInst exampleFunction (1, j))"
    by (simp add: exampleFunction_def getInst_def getBlock_def)
  have p1: "\<exists>P \<in> set (predecessors (getBlock exampleFunction 1)). Some P = Some (0 :: nat)"
    by (simp add: exampleFunction_def getBlock_def)
  note t3 = C2_first_scan [of 0 0 exampleFunction 3 exampleInfo None, THEN conjunct2, THEN conjunct1]
  note t4 = C2_first_scan [of 1 0 exampleFunction 4 exampleInfo None, THEN conjunct1]
  note t1 = C2_first_scan [of 0 0 exampleFunction 1 exampleInfo "Some 0", THEN conjunct2, THEN conjunct2]
  have g4: "getPC exampleInfo exampleFunction (4, 1) = Inr (0x1004, 2)"
    using t4 m4 r4 by auto
  show ?thesis
    using m3 r3 m4 n1 p1 t3 g4 t1 by simp
qed

text \<open>
  C2, as the claim states it, fails. On the first instruction of block 3 of the example
  the first iterator is not the end of the block: the scan examines the point itself,
  finds the marker there and returns its address and size. With any other instruction
  in its place, the same query goes on to the predecessors and meets the dispatcher. So
  the result depends on the instruction at the point.
\<close>

theorem C2_first_instruction_counterexample:
  "snd (initialCursor (3, 0)) = 1
   \<and> findMarker (insts (getBlock exampleFunction 3)) (snd (initialCursor (3, 0))) = Some 0
   \<and> getPC exampleInfo exampleFunction (3, 0) = Inr (0x1000, 4)
   \<and> getPC exampleInfo
        (exampleFunction[3 := (exampleFunction ! 3)\<lparr> insts := [OtherInst, OtherInst] \<rparr>]) (3, 0)
       = Inl DispatcherReached"
  by (simp add: initialCursor_def exampleFunction_def exampleInfo_def getBlock_def getPC_def
      search_def initialState_def searchLoop.simps result_def getInst_def getArgValue_def)

subsection \<open>The whole search\<close>

lemma searchLoop_rule:
  assumes init: "I st"
    and found: "\<And>st b k rest i. I st \<Longrightarrow> WorkList st = (b, k) # rest \<Longrightarrow> NewPCCall st = None \<Longrightarrow>
        findMarker (insts (getBlock F b)) k = Some i \<Longrightarrow>
        I (st\<lparr> WorkList := rest, NewPCCall := Some (b, i) \<rparr>)"
    and push: "\<And>st b k rest. I st \<Longrightarrow> WorkList st = (b, k) # rest \<Longrightarrow> NewPCCall st = None \<Longrightarrow>
        findMarker (insts (getBlock F b)) k = None \<Longrightarrow>
        \<forall>P \<in> set (predecessors (getBlock F b)). Some P \<noteq> D \<Longrightarrow>
        I (pushPredecessors F (predecessors (getBlock F b)) (st\<lparr> WorkList := rest \<rparr>))"
    and skip: "\<And>st b k rest m. I st \<Longrightarrow> WorkList st = (b, k) # rest \<Longrightarrow> NewPCCall st = Some m \<Longrightarrow>
        findMarker (insts (getBlock F b)) k = None \<Longrightarrow>
        I (st\<lparr> WorkList := rest \<rparr>)"
    and empty: "\<And>st. I st \<Longrightarrow> WorkList st = [] \<Longrightarrow> Q (WorkListEmpty, st)"
    and second: "\<And>st b k rest i m. I st \<Longrightarrow> WorkList st = (b, k) # rest \<Longrightarrow> NewPCCall st = Some m \<Longrightarrow>
        findMarker (insts (getBlock F b)) k = Some i \<Longrightarrow>
        Q (TwoMarkers (b, i), st\<lparr> WorkList := rest \<rparr>)"
    and dispatcher: "\<And>st b k rest d. I st \<Longrightarrow> WorkList st = (b, k) # rest \<Longrightarrow> NewPCCall st = None \<Longrightarrow>
        findMarker (insts (getBlock F b)) k = None \<Longrightarrow>
        d \<in> set (predecessors (getBlock F b)) \<Longrightarrow> D = Some d \<Longrightarrow>
        Q (AssertDispatcher, st\<lparr> WorkList := rest \<rparr>)"
  shows "Q (searchLoop F D st)"
proof -
  have "I st \<Longrightarrow> F0 = F \<Longrightarrow> D0 = D \<Longrightarrow> Q (searchLoop F0 D0 st)" for F0 D0
  proof (induction F0 D0 st rule: searchLoop.induct)
  case (1 F0 D0 st)
  note IH = "1.IH" and I = "1.prems"(1)
  note [simp] = "1.prems"(2,3)
  show ?case
  proof (cases "WorkList st")
    case Nil
    then show ?thesis using empty [OF I] by (simp add: searchLoop_Nil)
  next
    case (Cons c rest)
    obtain b k where c: "c = (b, k)" by (cases c)
    have wl: "WorkList st = (b, k) # rest" using Cons c by simp
    show ?thesis
    proof (cases "findMarker (insts (getBlock F b)) k")
      case None
      show ?thesis
      proof (cases "NewPCCall st")
        case np: None
        show ?thesis
        proof (cases "\<exists>P \<in> set (predecessors (getBlock F b)). Some P = D")
          case True
          then obtain d where d: "d \<in> set (predecessors (getBlock F b))" "D = Some d" by auto
          show ?thesis
            using searchLoop_dispatcher [OF wl np None d(1)] dispatcher [OF I wl np None d] d(2)
            by simp
        next
          case False
          then have nd: "\<forall>P \<in> set (predecessors (getBlock F b)). Some P \<noteq> D" by simp
          have "Q (searchLoop F D (pushPredecessors F (predecessors (getBlock F (fst c)))
                  (st\<lparr> WorkList := rest \<rparr>)))"
            using IH(1) [OF Cons] None np False push [OF I wl np None nd] c by simp
          then show ?thesis using searchLoop_push [OF wl np None nd] c by simp
        qed
      next
        case (Some m)
        have "Q (searchLoop F D (st\<lparr> WorkList := rest \<rparr>))"
          using IH(2) [OF Cons] None Some skip [OF I wl Some None] c by simp
        then show ?thesis using searchLoop_skip [OF wl Some None] by simp
      qed
    next
      case (Some i)
      show ?thesis
      proof (cases "NewPCCall st")
        case None
        have "Q (searchLoop F D (st\<lparr> WorkList := rest, NewPCCall := Some (b, i) \<rparr>))"
          using IH(3) [OF Cons] Some None found [OF I wl None Some] c by simp
        then show ?thesis using searchLoop_first_marker [OF wl None Some] by simp
      next
        case m: (Some m)
        show ?thesis
          using searchLoop_second_marker [OF wl m Some] second [OF I wl m Some] by simp
      qed
    qed
  qed
  qed
  then show ?thesis using init by simp
qed

lemma pushPredecessors_effect:
  "\<exists>new. WorkList (pushPredecessors F Ps st) = WorkList st @ new
       \<and> Enqueued (pushPredecessors F Ps st) = Enqueued st @ new
       \<and> Visited (pushPredecessors F Ps st) = Visited st \<union> fst ` set new
       \<and> NewPCCall (pushPredecessors F Ps st) = NewPCCall st
       \<and> distinct (map fst new) \<and> fst ` set new \<inter> Visited st = {}
       \<and> (\<forall>c \<in> set new. fst c \<in> set Ps \<and> insts (getBlock F (fst c)) \<noteq> []
             \<and> snd c = length (insts (getBlock F (fst c))))"
proof (induction Ps arbitrary: st)
  case Nil
  show ?case by (intro exI [of _ "[]"]) simp
next
  case (Cons P Ps)
  show ?case
  proof (cases "insts (getBlock F P) \<noteq> [] \<and> P \<notin> Visited st")
    case True
    let ?c = "(P, length (insts (getBlock F P)))"
    let ?st = "st\<lparr> WorkList := WorkList st @ [?c], Visited := insert P (Visited st),
                  Enqueued := Enqueued st @ [?c] \<rparr>"
    from Cons.IH [of ?st] obtain new where new:
      "WorkList (pushPredecessors F Ps ?st) = WorkList ?st @ new"
      "Enqueued (pushPredecessors F Ps ?st) = Enqueued ?st @ new"
      "Visited (pushPredecessors F Ps ?st) = Visited ?st \<union> fst ` set new"
      "NewPCCall (pushPredecessors F Ps ?st) = NewPCCall ?st"
      "distinct (map fst new)" "fst ` set new \<inter> Visited ?st = {}"
      "\<forall>c \<in> set new. fst c \<in> set Ps \<and> insts (getBlock F (fst c)) \<noteq> []
             \<and> snd c = length (insts (getBlock F (fst c)))"
      by blast
    have eq: "pushPredecessors F (P # Ps) st = pushPredecessors F Ps ?st"
      using True by simp
    show ?thesis
      unfolding eq using new True
      by (intro exI [of _ "?c # new"]) auto
  next
    case False
    then have eq: "pushPredecessors F (P # Ps) st = pushPredecessors F Ps st"
      by auto
    from Cons.IH [of st] show ?thesis
      unfolding eq by (elim exE) (rule exI, auto)
  qed
qed

lemma getBlock_nonempty: "insts (getBlock F b) \<noteq> [] \<Longrightarrow> b < length F"
  by (auto simp: getBlock_def emptyBB_def split: if_splits)

lemma searchInv_initial: "searchInv F (initialCursor p) (initialState p)"
  by (simp add: searchInv_def enqueuedInv_def initialState_def)

lemma searchInv_reach:
  "searchInv F c0 st \<Longrightarrow> c \<in> set (WorkList st) \<Longrightarrow> reachMarker F c m \<Longrightarrow> reachMarker F c0 m"
  unfolding searchInv_def by blast

lemma searchInv_reach_head:
  assumes "searchInv F c0 st" "WorkList st = c # rest" "reachMarker F c m"
  shows "reachMarker F c0 m"
proof -
  have "c \<in> set (WorkList st)" using assms(2) by simp
  from searchInv_reach [OF assms(1) this assms(3)] show ?thesis .
qed

lemma searchInv_reach_rest:
  assumes "searchInv F c0 st" "WorkList st = c # rest" "c' \<in> set rest" "reachMarker F c' m"
  shows "reachMarker F c0 m"
proof -
  have "c' \<in> set (WorkList st)" using assms(2,3) by simp
  from searchInv_reach [OF assms(1) this assms(4)] show ?thesis .
qed

lemma searchInv_found:
  assumes "searchInv F c0 st" "WorkList st = (b, k) # rest" "NewPCCall st = None"
    and "findMarker (insts (getBlock F b)) k = Some i"
  shows "searchInv F c0 (st\<lparr> WorkList := rest, NewPCCall := Some (b, i) \<rparr>)"
proof -
  have "reachMarker F (b, k) (b, i)" using assms(4) by (rule reach_here)
  then have "reachMarker F c0 (b, i)" by (rule searchInv_reach_head [OF assms(1,2)])
  moreover have "b \<notin> fst ` set rest" using assms(1,2) by (auto simp: searchInv_def)
  ultimately show ?thesis using assms(1,2) by (auto simp: searchInv_def enqueuedInv_def)
qed

lemma searchInv_skip:
  assumes "searchInv F c0 st" "WorkList st = (b, k) # rest" "NewPCCall st = Some m"
  shows "searchInv F c0 (st\<lparr> WorkList := rest \<rparr>)"
  using assms by (auto simp: searchInv_def enqueuedInv_def)

lemma searchInv_push:
  assumes inv: "searchInv F c0 st" and wl: "WorkList st = (b, k) # rest"
    and np: "NewPCCall st = None"
    and none: "findMarker (insts (getBlock F b)) k = None"
  shows "searchInv F c0 (pushPredecessors F (predecessors (getBlock F b)) (st\<lparr> WorkList := rest \<rparr>))"
proof -
  let ?st1 = "st\<lparr> WorkList := rest \<rparr>"
  let ?st2 = "pushPredecessors F (predecessors (getBlock F b)) ?st1"
  from pushPredecessors_effect [of F "predecessors (getBlock F b)" ?st1]
  obtain new where new:
    "WorkList ?st2 = rest @ new" "Enqueued ?st2 = Enqueued st @ new"
    "Visited ?st2 = Visited st \<union> fst ` set new" "NewPCCall ?st2 = None"
    "distinct (map fst new)" "fst ` set new \<inter> Visited st = {}"
    "\<forall>c \<in> set new. fst c \<in> set (predecessors (getBlock F b)) \<and> insts (getBlock F (fst c)) \<noteq> []
           \<and> snd c = length (insts (getBlock F (fst c)))"
    using np by auto
  have d: "distinct (map fst rest)" and v: "fst ` set rest \<subseteq> Visited st"
    using inv wl np by (auto simp: searchInv_def)
  have 1: "distinct (map fst (WorkList ?st2))"
    using d v new(1,5,6) by auto
  have 2: "fst ` set (tl (WorkList ?st2)) \<subseteq> Visited ?st2"
  proof -
    have "set (tl (rest @ new)) \<subseteq> set (rest @ new)"
      by (cases "rest @ new") auto
    then have "fst ` set (tl (rest @ new)) \<subseteq> fst ` set rest \<union> fst ` set new"
      by (simp add: image_Un [symmetric] image_mono)
    then show ?thesis using v unfolding new(1,3) by blast
  qed
  have r: "reachMarker F c0 m" if "reachMarker F (b, k) m" for m
    using inv wl that by (rule searchInv_reach_head)
  have 4: "\<forall>c \<in> set (WorkList ?st2). \<forall>m. reachMarker F c m \<longrightarrow> reachMarker F c0 m"
  proof (intro ballI allI impI)
    fix c m assume c: "c \<in> set (WorkList ?st2)" and m: "reachMarker F c m"
    show "reachMarker F c0 m"
    proof (cases "c \<in> set rest")
      case True
      then show ?thesis using m by (intro searchInv_reach_rest [OF inv wl])
    next
      case False
      then have cn: "c \<in> set new" using c new(1) by auto
      then have p: "fst c \<in> set (predecessors (getBlock F b))" "insts (getBlock F (fst c)) \<noteq> []"
        "c = (fst c, length (insts (getBlock F (fst c))))"
        using new(7) by (auto simp: prod_eq_iff)
      have "reachMarker F (fst c, length (insts (getBlock F (fst c)))) m"
        using m p(3) by simp
      from reach_back [OF none p(1,2) this] show ?thesis by (rule r)
    qed
  qed
  from inv obtain E where E: "Enqueued st = c0 # E" "distinct (map fst E)" "fst ` set E \<subseteq> Visited st"
    "\<forall>c \<in> set E. fst c < length F \<and> insts (getBlock F (fst c)) \<noteq> []
                \<and> snd c = length (insts (getBlock F (fst c)))"
    by (auto simp: searchInv_def enqueuedInv_def)
  have 5: "enqueuedInv F c0 ?st2"
    unfolding enqueuedInv_def
  proof (intro exI [of _ "E @ new"] conjI)
    show "Enqueued ?st2 = c0 # E @ new" using new(2) E(1) by simp
    show "distinct (map fst (E @ new))" using E(2,3) new(5,6) by auto
    show "fst ` set (E @ new) \<subseteq> Visited ?st2" using E(3) new(3) by auto
    show "\<forall>c \<in> set (E @ new). fst c < length F \<and> insts (getBlock F (fst c)) \<noteq> []
                \<and> snd c = length (insts (getBlock F (fst c)))"
      using E(4) new(7) by (auto dest: getBlock_nonempty)
  qed
  show ?thesis
    unfolding searchInv_def using 1 2 4 5 new(4) by simp
qed

lemma search_post:
  assumes "search F D p = (e, st')"
  shows "enqueuedInv F (initialCursor p) st'
     \<and> (\<forall>m. NewPCCall st' = Some m \<longrightarrow> reachMarker F (initialCursor p) m)
     \<and> (\<forall>m2. e = TwoMarkers m2 \<longrightarrow>
           (\<exists>m1. NewPCCall st' = Some m1 \<and> m1 \<noteq> m2 \<and> reachMarker F (initialCursor p) m2))"
proof -
  let ?c0 = "initialCursor p"
  let ?Q = "\<lambda>r. enqueuedInv F ?c0 (snd r)
     \<and> (\<forall>m. NewPCCall (snd r) = Some m \<longrightarrow> reachMarker F ?c0 m)
     \<and> (\<forall>m2. fst r = TwoMarkers m2 \<longrightarrow>
           (\<exists>m1. NewPCCall (snd r) = Some m1 \<and> m1 \<noteq> m2 \<and> reachMarker F ?c0 m2))"
  have "?Q (searchLoop F D (initialState p))"
  proof (rule searchLoop_rule [where I = "searchInv F ?c0" and Q = ?Q])
    show "searchInv F ?c0 (initialState p)" by (rule searchInv_initial)
  next
    fix st b k rest i
    assume "searchInv F ?c0 st" "WorkList st = (b, k) # rest" "NewPCCall st = None"
      "findMarker (insts (getBlock F b)) k = Some i"
    then show "searchInv F ?c0 (st\<lparr> WorkList := rest, NewPCCall := Some (b, i) \<rparr>)"
      by (rule searchInv_found)
  next
    fix st b k rest
    assume "searchInv F ?c0 st" "WorkList st = (b, k) # rest" "NewPCCall st = None"
      "findMarker (insts (getBlock F b)) k = None"
    then show "searchInv F ?c0 (pushPredecessors F (predecessors (getBlock F b)) (st\<lparr> WorkList := rest \<rparr>))"
      by (rule searchInv_push)
  next
    fix st b k rest m
    assume "searchInv F ?c0 st" "WorkList st = (b, k) # rest" "NewPCCall st = Some m"
    then show "searchInv F ?c0 (st\<lparr> WorkList := rest \<rparr>)"
      by (rule searchInv_skip)
  next
    fix st assume "searchInv F ?c0 st" "WorkList st = []"
    then show "?Q (WorkListEmpty, st)" by (simp add: searchInv_def)
  next
    fix st b k rest i m
    assume a: "searchInv F ?c0 st" "WorkList st = (b, k) # rest" "NewPCCall st = Some m"
      "findMarker (insts (getBlock F b)) k = Some i"
    have "reachMarker F (b, k) (b, i)" using a(4) by (rule reach_here)
    then have "reachMarker F ?c0 (b, i)" by (rule searchInv_reach_head [OF a(1,2)])
    moreover have "m \<noteq> (b, i)" using a(1,2,3) by (auto simp: searchInv_def)
    ultimately show "?Q (TwoMarkers (b, i), st\<lparr> WorkList := rest \<rparr>)"
      using a(1,3) by (auto simp: searchInv_def enqueuedInv_def)
  next
    fix st b k rest d
    assume "searchInv F ?c0 st" "WorkList st = (b, k) # rest" "NewPCCall st = None"
    then show "?Q (AssertDispatcher, st\<lparr> WorkList := rest \<rparr>)"
      by (auto simp: searchInv_def enqueuedInv_def)
  qed
  then show ?thesis using assms by (simp add: search_def)
qed

lemma reachMarker_isNewPC: "reachMarker F c m \<Longrightarrow> isNewPC (getInst F m)"
proof (induction rule: reachMarker.induct)
  case (reach_here b k i)
  then show ?case using findMarker_Some [of "insts (getBlock F b)" k i]
    by (simp add: isNewPC_getInst)
next
  case (reach_back b k P m)
  then show ?case by simp
qed

lemma readMarker_Inr: "readMarker I = Inr r \<Longrightarrow> snd r \<noteq> 0"
  by (cases I) (auto split: sum.splits if_splits)

lemma distinct_bounded_length:
  assumes "distinct xs" "\<forall>x \<in> set xs. x < (n :: nat)"
  shows "length xs \<le> n"
proof -
  have "length xs = card (set xs)" using assms(1) by (simp add: distinct_card)
  also have "\<dots> \<le> card {..<n}" using assms(2) by (intro card_mono) auto
  finally show ?thesis by simp
qed

lemma search_twoPaths:
  "search twoPaths None (0, 1)
     = (TwoMarkers (2, 0), twoPathsState\<lparr> WorkList := [] \<rparr>)"
  by (simp add: search_def initialState_def initialCursor_def twoPaths_def searchLoop.simps
      getBlock_def insert_commute twoPathsState_def)

lemma search_selfLoop:
  "search selfLoop None (0, 1)
     = (WorkListEmpty,
        \<lparr> NewPCCall = None, Visited = {0}, WorkList = [], Enqueued = [(0, 1), (0, 2)] \<rparr>)"
  by (simp add: search_def initialState_def initialCursor_def selfLoop_def searchLoop.simps
      getBlock_def)

lemma search_divergent:
  "search divergent (Some 0) (3, 1)
     = (WorkListEmpty,
        \<lparr> NewPCCall = Some (4, 0), Visited = {4, 5}, WorkList = [],
          Enqueued = [(3, 1), (4, 1), (5, 1)] \<rparr>)"
  by (simp add: search_def initialState_def initialCursor_def divergent_def searchLoop.simps
      getBlock_def insert_commute)

lemma search_loopBack: "search loopBack (Some 0) (4, 1) = (WorkListEmpty, loopBackFinal)"
  by (simp add: search_def initialState_def initialCursor_def loopBack_def searchLoop.simps
      getBlock_def insert_commute loopBackFinal_def)

lemma runOnFunction_divergent:
  "runOnFunction initialInfo (Some (0, ''pc'')) divergent = Inr divergentInfo"
  by (simp add: runOnFunction_def initialInfo_def divergent_def divergentInfo_def
      visitBlock_def jumpTargetAddress_def getArgValue_def eval_nat_numeral)

lemma runOnFunction_loopBack:
  "runOnFunction initialInfo (Some (0, ''pc'')) loopBack = Inr loopBackInfo"
  by (simp add: runOnFunction_def initialInfo_def loopBack_def loopBackInfo_def
      visitBlock_def jumpTargetAddress_def getArgValue_def eval_nat_numeral)

lemma reach_divergent:
  "reachMarker divergent (initialCursor (3, 1)) (4, 0)"
  "reachMarker divergent (initialCursor (3, 1)) (6, 0)"
proof -
  have c: "initialCursor (3, 1) = (3, 1)" by (simp add: initialCursor_def)
  have n3: "findMarker (insts (getBlock divergent 3)) 1 = None"
    by (simp add: divergent_def getBlock_def)
  have n5: "findMarker (insts (getBlock divergent 5)) 1 = None"
    by (simp add: divergent_def getBlock_def)
  have l: "length (insts (getBlock divergent 4)) = 1" "length (insts (getBlock divergent 5)) = 1"
    "length (insts (getBlock divergent 6)) = 1"
    by (simp_all add: divergent_def getBlock_def)
  have "reachMarker divergent (4, 1) (4, 0)"
    by (rule reach_here) (simp add: divergent_def getBlock_def)
  then have "reachMarker divergent (4, length (insts (getBlock divergent 4))) (4, 0)"
    by (simp only: l)
  then have "reachMarker divergent (3, 1) (4, 0)"
    by (rule reach_back [OF n3, rotated 2]) (simp_all add: divergent_def getBlock_def)
  then show "reachMarker divergent (initialCursor (3, 1)) (4, 0)" by (simp only: c)
  have "reachMarker divergent (6, 1) (6, 0)"
    by (rule reach_here) (simp add: divergent_def getBlock_def)
  then have "reachMarker divergent (6, length (insts (getBlock divergent 6))) (6, 0)"
    by (simp only: l)
  then have "reachMarker divergent (5, 1) (6, 0)"
    by (rule reach_back [OF n5, rotated 2]) (simp_all add: divergent_def getBlock_def)
  then have "reachMarker divergent (5, length (insts (getBlock divergent 5))) (6, 0)"
    by (simp only: l)
  then have "reachMarker divergent (3, 1) (6, 0)"
    by (rule reach_back [OF n3, rotated 2]) (simp_all add: divergent_def getBlock_def)
  then show "reachMarker divergent (initialCursor (3, 1)) (6, 0)" by (simp only: c)
qed

lemma search_not_dispatcher:
  assumes "search F D p = (e, st')"
  shows "\<forall>c \<in> set (tl (Enqueued st')). Some (fst c) \<noteq> D"
proof -
  let ?I = "\<lambda>st :: search_state.
      Enqueued st \<noteq> [] \<and> (\<forall>c \<in> set (tl (Enqueued st)). Some (fst c) \<noteq> D)"
  have "?I (snd (searchLoop F D (initialState p)))"
  proof (rule searchLoop_rule [where I = ?I and Q = "\<lambda>r. ?I (snd r)"])
    show "?I (initialState p)" by (simp add: initialState_def)
  next
    fix st :: search_state and b :: nat and k :: nat and rest :: "(nat \<times> nat) list"
    assume I: "?I st"
      and nd: "\<forall>P \<in> set (predecessors (getBlock F b)). Some P \<noteq> D"
    let ?st2 = "pushPredecessors F (predecessors (getBlock F b)) (st\<lparr> WorkList := rest \<rparr>)"
    from pushPredecessors_effect [of F "predecessors (getBlock F b)" "st\<lparr> WorkList := rest \<rparr>"]
    obtain new where new: "Enqueued ?st2 = Enqueued st @ new"
      "\<forall>c \<in> set new. fst c \<in> set (predecessors (getBlock F b))"
      by auto
    have "tl (Enqueued ?st2) = tl (Enqueued st) @ new"
      using I new(1) by simp
    then show "?I ?st2" using I new nd by auto
  qed (simp_all)
  then show ?thesis using assms by (simp add: search_def)
qed

lemma no_marker_selfLoop: "\<not> reachMarker selfLoop c m"
proof
  assume "reachMarker selfLoop c m"
  then show False
  proof (induction rule: reachMarker.induct)
    case (reach_here b k i)
    from findMarker_Some [OF this] show ?case
      by (auto simp: selfLoop_def getBlock_def emptyBB_def nth_Cons' split: if_splits)
  next
    case (reach_back b k P m)
    then show ?case by simp
  qed
qed

lemma pushPredecessors_mono: "Visited st \<subseteq> Visited (pushPredecessors F Ps st)"
  using pushPredecessors_effect [of F Ps st] by auto

lemma pushPredecessors_covers:
  "P \<in> set Ps \<Longrightarrow> insts (getBlock F P) \<noteq> [] \<Longrightarrow> P \<in> Visited (pushPredecessors F Ps st)"
proof (induction Ps arbitrary: st)
  case Nil
  then show ?case by simp
next
  case (Cons Q Ps)
  let ?st = "if insts (getBlock F Q) \<noteq> [] \<and> Q \<notin> Visited st
        then st\<lparr> WorkList := WorkList st @ [(Q, length (insts (getBlock F Q)))],
                 Visited := insert Q (Visited st),
                 Enqueued := Enqueued st @ [(Q, length (insts (getBlock F Q)))] \<rparr>
        else st"
  have eq: "pushPredecessors F (Q # Ps) st = pushPredecessors F Ps ?st" by simp
  show ?case
  proof (cases "P = Q")
    case True
    then have "P \<in> Visited ?st" using Cons.prems by auto
    then show ?thesis unfolding eq using pushPredecessors_mono [of ?st F Ps] by blast
  next
    case False
    then have "P \<in> set Ps" using Cons.prems by simp
    from Cons.IH [OF this Cons.prems(2), of ?st] show ?thesis unfolding eq .
  qed
qed

lemma exploredInv_push:
  assumes inv: "exploredInv F c0 st" and wl: "WorkList st = (b, k) # rest"
    and np: "NewPCCall st = None"
    and none: "findMarker (insts (getBlock F b)) k = None"
  shows "exploredInv F c0 (pushPredecessors F (predecessors (getBlock F b)) (st\<lparr> WorkList := rest \<rparr>))"
proof -
  let ?st1 = "st\<lparr> WorkList := rest \<rparr>"
  let ?st2 = "pushPredecessors F (predecessors (getBlock F b)) ?st1"
  from pushPredecessors_effect [of F "predecessors (getBlock F b)" ?st1]
  obtain new where new:
    "WorkList ?st2 = rest @ new"
    "Visited ?st2 = Visited st \<union> fst ` set new"
    "\<forall>c \<in> set new. snd c = length (insts (getBlock F (fst c)))"
    by auto
  have cov: "\<forall>P \<in> set (predecessors (getBlock F b)). insts (getBlock F P) \<noteq> [] \<longrightarrow> P \<in> Visited ?st2"
    using pushPredecessors_covers [of _ "predecessors (getBlock F b)" F ?st1] by blast
  show ?thesis
    unfolding exploredInv_def
  proof (intro impI allI)
    fix c
    assume c: "(c = c0 \<or> (\<exists>P \<in> Visited ?st2. c = (P, length (insts (getBlock F P)))))
               \<and> c \<notin> set (WorkList ?st2)"
    have notnew: "c \<notin> set new" and notrest: "c \<notin> set rest" using c new(1) by auto
    have known: "c = c0 \<or> (\<exists>P \<in> Visited st. c = (P, length (insts (getBlock F P))))"
    proof (cases "c = c0")
      case True then show ?thesis by simp
    next
      case False
      then obtain P where P: "P \<in> Visited ?st2" "c = (P, length (insts (getBlock F P)))"
        using c by blast
      have "P \<notin> fst ` set new"
      proof
        assume "P \<in> fst ` set new"
        then obtain c' where c': "c' \<in> set new" "fst c' = P" by auto
        then have "c' = c" using new(3) P(2) by (auto simp: prod_eq_iff)
        then show False using c' notnew by simp
      qed
      then show ?thesis using P new(2) by auto
    qed
    show "findMarker (insts (getBlock F (fst c))) (snd c) = None
             \<and> (\<forall>P \<in> set (predecessors (getBlock F (fst c))).
                   insts (getBlock F P) \<noteq> [] \<longrightarrow> P \<in> Visited ?st2)"
    proof (cases "c = (b, k)")
      case True
      then show ?thesis using none cov by simp
    next
      case False
      then have "c \<notin> set (WorkList st)" using wl notrest by simp
      then have k: "(c = c0 \<or> (\<exists>P \<in> Visited st. c = (P, length (insts (getBlock F P)))))
               \<and> c \<notin> set (WorkList st)"
        using known by simp
      have "\<forall>c. (c = c0 \<or> (\<exists>P \<in> Visited st. c = (P, length (insts (getBlock F P)))))
               \<and> c \<notin> set (WorkList st) \<longrightarrow>
             findMarker (insts (getBlock F (fst c))) (snd c) = None
             \<and> (\<forall>P \<in> set (predecessors (getBlock F (fst c))).
                   insts (getBlock F P) \<noteq> [] \<longrightarrow> P \<in> Visited st)"
        using inv np unfolding exploredInv_def by simp
      from this [rule_format, OF k]
      have old: "findMarker (insts (getBlock F (fst c))) (snd c) = None
             \<and> (\<forall>P \<in> set (predecessors (getBlock F (fst c))).
                   insts (getBlock F P) \<noteq> [] \<longrightarrow> P \<in> Visited st)" .
      have "Visited st \<subseteq> Visited ?st2" using new(2) by simp
      then show ?thesis using old by blast
    qed
  qed
qed

lemma explored_no_marker:
  assumes "reachMarker F c m"
    and "\<forall>c. (c = c0 \<or> (\<exists>P \<in> V. c = (P, length (insts (getBlock F P))))) \<longrightarrow>
             findMarker (insts (getBlock F (fst c))) (snd c) = None
             \<and> (\<forall>P \<in> set (predecessors (getBlock F (fst c))).
                   insts (getBlock F P) \<noteq> [] \<longrightarrow> P \<in> V)"
    and "c = c0 \<or> (\<exists>P \<in> V. c = (P, length (insts (getBlock F P))))"
  shows False
  using assms
proof (induction rule: reachMarker.induct)
  case (reach_here b k i)
  from reach_here.prems(1) [rule_format, OF reach_here.prems(2), THEN conjunct1]
  show ?case using reach_here.hyps by simp
next
  case (reach_back b k P m)
  from reach_back.prems(1) [rule_format, OF reach_back.prems(2), THEN conjunct2]
  have "P \<in> V" using reach_back.hyps(2,3) by simp
  then have "(P, length (insts (getBlock F P))) = c0
      \<or> (\<exists>P' \<in> V. (P, length (insts (getBlock F P))) = (P', length (insts (getBlock F P'))))"
    by blast
  from reach_back.IH [OF reach_back.prems(1) this] show ?case .
qed

lemma search_complete:
  assumes "search F D p = (WorkListEmpty, st')" "NewPCCall st' = None"
  shows "\<not> reachMarker F (initialCursor p) m"
proof -
  let ?c0 = "initialCursor p"
  let ?Q = "\<lambda>r :: search_exit \<times> search_state.
      fst r = WorkListEmpty \<longrightarrow> WorkList (snd r) = [] \<and> exploredInv F ?c0 (snd r)"
  have "?Q (searchLoop F D (initialState p))"
  proof (rule searchLoop_rule [where I = "exploredInv F ?c0" and Q = ?Q])
    show "exploredInv F ?c0 (initialState p)"
      by (simp add: exploredInv_def initialState_def)
  next
    fix st b k rest
    assume "exploredInv F ?c0 st" "WorkList st = (b, k) # rest" "NewPCCall st = None"
      "findMarker (insts (getBlock F b)) k = None"
    then show "exploredInv F ?c0 (pushPredecessors F (predecessors (getBlock F b)) (st\<lparr> WorkList := rest \<rparr>))"
      by (rule exploredInv_push)
  next
    fix st :: search_state and b :: nat and rest :: "(nat \<times> nat) list" and i :: nat
    show "exploredInv F ?c0 (st\<lparr> WorkList := rest, NewPCCall := Some (b, i) \<rparr>)"
      unfolding exploredInv_def by simp
  next
    fix st :: search_state and rest :: "(nat \<times> nat) list" and m
    assume "NewPCCall st = Some m"
    then show "exploredInv F ?c0 (st\<lparr> WorkList := rest \<rparr>)"
      unfolding exploredInv_def by simp
  next
    fix st assume "exploredInv F ?c0 st" "WorkList st = []"
    then show "?Q (WorkListEmpty, st)" by simp
  next
    fix st :: search_state and b :: nat and rest :: "(nat \<times> nat) list" and i :: nat
    show "?Q (TwoMarkers (b, i), st\<lparr> WorkList := rest \<rparr>)" by simp
  next
    fix st :: search_state and rest :: "(nat \<times> nat) list"
    show "?Q (AssertDispatcher, st\<lparr> WorkList := rest \<rparr>)" by simp
  qed
  then have e: "exploredInv F ?c0 st'" "WorkList st' = []"
    using assms(1) by (simp_all add: search_def)
  show ?thesis
  proof
    assume r: "reachMarker F ?c0 m"
    have all: "\<forall>c. (c = ?c0 \<or> (\<exists>P \<in> Visited st'. c = (P, length (insts (getBlock F P))))) \<longrightarrow>
             findMarker (insts (getBlock F (fst c))) (snd c) = None
             \<and> (\<forall>P \<in> set (predecessors (getBlock F (fst c))).
                   insts (getBlock F P) \<noteq> [] \<longrightarrow> P \<in> Visited st')"
      using e assms(2) unfolding exploredInv_def by simp
    have "?c0 = ?c0 \<or> (\<exists>P \<in> Visited st'. ?c0 = (P, length (insts (getBlock F P))))"
      by simp
    from explored_no_marker [OF r all this] show False .
  qed
qed

lemma searchLoop_drain:
  "WorkList st = W \<Longrightarrow> NewPCCall st = Some m \<Longrightarrow>
     result F (searchLoop F D st) =
       (if \<exists>c \<in> set W. findMarker (insts (getBlock F (fst c))) (snd c) \<noteq> None
        then Inr (0, 0) else readMarker (getInst F m))
     \<and> ((\<forall>c \<in> set W. findMarker (insts (getBlock F (fst c))) (snd c) = None)
          \<longrightarrow> searchLoop F D st = (WorkListEmpty, st\<lparr> WorkList := [] \<rparr>))"
proof (induction W arbitrary: st)
  case Nil
  then show ?case by (simp add: searchLoop_Nil result_def)
next
  case (Cons c rest)
  obtain b k where c: "c = (b, k)" by (cases c)
  have wl: "WorkList st = (b, k) # rest" using Cons.prems c by simp
  show ?case
  proof (cases "findMarker (insts (getBlock F b)) k")
    case None
    have "WorkList (st\<lparr> WorkList := rest \<rparr>) = rest" "NewPCCall (st\<lparr> WorkList := rest \<rparr>) = Some m"
      using Cons.prems by simp_all
    from Cons.IH [OF this] searchLoop_skip [OF wl Cons.prems(2) None, of D]
    show ?thesis using None c by simp
  next
    case (Some j)
    from searchLoop_second_marker [OF wl Cons.prems(2) Some, of D]
    show ?thesis using Some c by (simp add: result_def)
  qed
qed

lemma runOnFunction_diamond:
  "runOnFunction initialInfo (Some (0, ''pc'')) diamond = Inr diamondInfo"
  by (simp add: runOnFunction_def initialInfo_def diamond_def diamondInfo_def
      visitBlock_def jumpTargetAddress_def getArgValue_def eval_nat_numeral)

lemma runOnFunction_threePaths:
  "runOnFunction initialInfo (Some (0, ''pc'')) threePaths = Inr threePathsInfo"
  by (simp add: runOnFunction_def initialInfo_def threePaths_def threePathsInfo_def
      visitBlock_def jumpTargetAddress_def getArgValue_def eval_nat_numeral)

lemma marker_diamond: "isNewPC (getInst diamond m) \<Longrightarrow> m = (3, 0)"
  by (cases m)
     (auto simp: diamond_def getInst_def getBlock_def emptyBB_def nth_Cons' Let_def
       split: if_splits)

lemma reach_diamond: "reachMarker diamond (initialCursor (6, 1)) (3, 0)"
proof -
  have c: "initialCursor (6, 1) = (6, 1)" by (simp add: initialCursor_def)
  have n6: "findMarker (insts (getBlock diamond 6)) 1 = None"
    by (simp add: diamond_def getBlock_def)
  have n4: "findMarker (insts (getBlock diamond 4)) 1 = None"
    by (simp add: diamond_def getBlock_def)
  have l: "length (insts (getBlock diamond 3)) = 2" "length (insts (getBlock diamond 4)) = 1"
    by (simp_all add: diamond_def getBlock_def)
  have "reachMarker diamond (3, 2) (3, 0)"
    by (rule reach_here) (simp add: diamond_def getBlock_def eval_nat_numeral)
  then have "reachMarker diamond (3, length (insts (getBlock diamond 3))) (3, 0)"
    by (simp only: l)
  then have "reachMarker diamond (4, 1) (3, 0)"
    by (rule reach_back [OF n4, rotated 2]) (simp_all add: diamond_def getBlock_def)
  then have "reachMarker diamond (4, length (insts (getBlock diamond 4))) (3, 0)"
    by (simp only: l)
  then have "reachMarker diamond (6, 1) (3, 0)"
    by (rule reach_back [OF n6, rotated 2]) (simp_all add: diamond_def getBlock_def)
  then show ?thesis by (simp only: c)
qed

lemma getPC_first_predecessor:
  assumes none: "findMarker (insts (getBlock F b)) (snd (initialCursor (b, i))) = None"
    and nd: "\<forall>P \<in> set (predecessors (getBlock F b)). Some P \<noteq> Dispatcher G"
    and wl: "WorkList (pushPredecessors F (predecessors (getBlock F b))
                ((initialState (b, i))\<lparr> WorkList := [] \<rparr>)) = (b1, k1) # rest"
    and found: "findMarker (insts (getBlock F b1)) k1 = Some j"
  shows "getPC G F (b, i) =
           (if \<exists>c \<in> set rest. findMarker (insts (getBlock F (fst c))) (snd c) \<noteq> None
            then Inr (0, 0) else readMarker (getInst F (b1, j)))"
proof -
  let ?st0 = "initialState (b, i)"
  let ?st1 = "pushPredecessors F (predecessors (getBlock F b)) (?st0\<lparr> WorkList := [] \<rparr>)"
  let ?st2 = "?st1\<lparr> WorkList := rest, NewPCCall := Some (b1, j) \<rparr>"
  have c: "initialCursor (b, i) = (b, snd (initialCursor (b, i)))"
    by (simp add: initialCursor_def)
  have w0: "WorkList ?st0 = (b, snd (initialCursor (b, i))) # []"
    using c by (simp add: initialState_def)
  have n0: "NewPCCall ?st0 = None" by (simp add: initialState_def)
  have n1: "NewPCCall ?st1 = None"
    using pushPredecessors_effect [of F "predecessors (getBlock F b)" "?st0\<lparr> WorkList := [] \<rparr>"] n0
    by auto
  have "search F (Dispatcher G) (b, i) = searchLoop F (Dispatcher G) ?st1"
    unfolding search_def by (rule searchLoop_push [OF w0 n0 none nd])
  also have "\<dots> = searchLoop F (Dispatcher G) ?st2"
    by (rule searchLoop_first_marker [OF wl n1 found])
  finally have "getPC G F (b, i) = result F (searchLoop F (Dispatcher G) ?st2)"
    by (simp add: getPC_def)
  moreover have "WorkList ?st2 = rest" "NewPCCall ?st2 = Some (b1, j)" by simp_all
  ultimately show ?thesis using searchLoop_drain [of ?st2 rest "(b1, j)" F "Dispatcher G"]
    by simp
qed

lemma reach_threePaths: "reachMarker threePaths (initialCursor (3, 1)) (4, 0)"
proof -
  have c: "initialCursor (3, 1) = (3, 1)" by (simp add: initialCursor_def)
  have n3: "findMarker (insts (getBlock threePaths 3)) 1 = None"
    by (simp add: threePaths_def getBlock_def)
  have l: "length (insts (getBlock threePaths 4)) = 1"
    by (simp add: threePaths_def getBlock_def)
  have "reachMarker threePaths (4, 1) (4, 0)"
    by (rule reach_here) (simp add: threePaths_def getBlock_def)
  then have "reachMarker threePaths (4, length (insts (getBlock threePaths 4))) (4, 0)"
    by (simp only: l)
  then have "reachMarker threePaths (3, 1) (4, 0)"
    by (rule reach_back [OF n3, rotated 2]) (simp_all add: threePaths_def getBlock_def)
  then show ?thesis by (simp only: c)
qed

lemma getPC_diamond: "getPC diamondInfo diamond (6, 1) = Inr (0x3000, 8)"
  by (simp add: getPC_def search_def initialState_def initialCursor_def diamondInfo_def
      diamond_def searchLoop.simps getBlock_def result_def getInst_def getArgValue_def)

lemma getPC_threePaths: "getPC threePathsInfo threePaths (3, 1) = Inr (0, 0)"
  by (simp add: getPC_def search_def initialState_def initialCursor_def threePathsInfo_def
      threePaths_def searchLoop.simps getBlock_def result_def)

lemma getPC_twoPaths: "getPC initialInfo twoPaths (0, 1) = Inr (0, 0)"
  using search_twoPaths by (simp add: getPC_def initialInfo_def result_def)

text \<open>
  C1. In any state of the search in which a marker has already been found, if the scan
  of the next block on the work list meets a marker, the loop is left at line 104 and
  \<open>getPC\<close> yields \<open>(0, 0)\<close>. The source does not compare the two markers; but
  whenever a search that started from a query point is left this way, the marker just
  met differs from the one found before, and both are markers reachable backward from the
  point. Meeting the same marker again does not cause the unknown outcome: when exactly
  one marker is reachable backward from the point, on however many paths, \<open>getPC\<close>
  returns what that marker carries (or the dispatcher is met first), never \<open>(0, 0)\<close>;
  and whenever \<open>getPC\<close> returns \<open>(0, 0)\<close>, either no marker is reachable or two
  distinct ones are.
\<close>

theorem C1_second_marker:
  "(WorkList st = (b, k) # rest \<and> NewPCCall st = Some m1
      \<and> findMarker (insts (getBlock F b)) k = Some i
      \<longrightarrow> searchLoop F D st = (TwoMarkers (b, i), st\<lparr> WorkList := rest \<rparr>)
          \<and> result F (searchLoop F D st) = Inr (0, 0))
   \<and> (search F (Dispatcher G) p = (TwoMarkers m2, st')
      \<longrightarrow> getPC G F p = Inr (0, 0)
          \<and> (\<exists>m. NewPCCall st' = Some m \<and> m \<noteq> m2
                \<and> isNewPC (getInst F m) \<and> isNewPC (getInst F m2)
                \<and> reachMarker F (initialCursor p) m \<and> reachMarker F (initialCursor p) m2))
   \<and> (reachMarker F (initialCursor p) m
         \<and> (\<forall>m'. reachMarker F (initialCursor p) m' \<longrightarrow> m' = m)
      \<longrightarrow> (getPC G F p = readMarker (getInst F m) \<or> getPC G F p = Inl DispatcherReached)
          \<and> getPC G F p \<noteq> Inr (0, 0))
   \<and> (getPC G F p = Inr (0, 0)
      \<longrightarrow> (\<forall>m. \<not> reachMarker F (initialCursor p) m)
          \<or> (\<exists>m m'. m \<noteq> m' \<and> reachMarker F (initialCursor p) m
                \<and> reachMarker F (initialCursor p) m'))"
proof -
  have 1: "searchLoop F D st = (TwoMarkers (b, i), st\<lparr> WorkList := rest \<rparr>)
          \<and> result F (searchLoop F D st) = Inr (0, 0)"
    if "WorkList st = (b, k) # rest \<and> NewPCCall st = Some m1
      \<and> findMarker (insts (getBlock F b)) k = Some i"
    using that searchLoop_second_marker [of st b k rest m1 F i D] by (simp add: result_def)
  have 2: "getPC G F p = Inr (0, 0)
          \<and> (\<exists>m. NewPCCall st' = Some m \<and> m \<noteq> m2
                \<and> isNewPC (getInst F m) \<and> isNewPC (getInst F m2)
                \<and> reachMarker F (initialCursor p) m \<and> reachMarker F (initialCursor p) m2)"
    if s: "search F (Dispatcher G) p = (TwoMarkers m2, st')"
  proof -
    from search_post [OF s] obtain m where m: "NewPCCall st' = Some m" "m \<noteq> m2"
      "reachMarker F (initialCursor p) m2" "reachMarker F (initialCursor p) m"
      by blast
    have "getPC G F p = Inr (0, 0)" using s by (simp add: getPC_def result_def)
    then show ?thesis using m reachMarker_isNewPC [OF m(3)] reachMarker_isNewPC [OF m(4)]
      by blast
  qed
  obtain e s' where s: "search F (Dispatcher G) p = (e, s')"
    by (cases "search F (Dispatcher G) p")
  note post = search_post [OF s]
  have 4: "(\<forall>m. \<not> reachMarker F (initialCursor p) m)
          \<or> (\<exists>m m'. m \<noteq> m' \<and> reachMarker F (initialCursor p) m
                \<and> reachMarker F (initialCursor p) m')"
    if g: "getPC G F p = Inr (0, 0)"
  proof (cases e)
    case (TwoMarkers m2)
    then obtain m1 where "NewPCCall s' = Some m1" "m1 \<noteq> m2"
      "reachMarker F (initialCursor p) m2" using post by blast
    moreover from this have "reachMarker F (initialCursor p) m1" using post by blast
    ultimately show ?thesis by blast
  next
    case AssertDispatcher
    then show ?thesis using g s by (simp add: getPC_def result_def)
  next
    case WorkListEmpty
    show ?thesis
    proof (cases "NewPCCall s'")
      case None
      then show ?thesis using search_complete [of F "Dispatcher G" p s'] s WorkListEmpty
        by blast
    next
      case (Some m)
      then have "readMarker (getInst F m) = Inr (0, 0)"
        using g s WorkListEmpty by (simp add: getPC_def result_def)
      from readMarker_Inr [OF this] show ?thesis by simp
    qed
  qed
  have 3: "(getPC G F p = readMarker (getInst F m) \<or> getPC G F p = Inl DispatcherReached)
          \<and> getPC G F p \<noteq> Inr (0, 0)"
    if u: "reachMarker F (initialCursor p) m
         \<and> (\<forall>m'. reachMarker F (initialCursor p) m' \<longrightarrow> m' = m)"
  proof -
    have n0: "getPC G F p \<noteq> Inr (0, 0)"
    proof
      assume "getPC G F p = Inr (0, 0)"
      from 4 [OF this] show False using u by blast
    qed
    have "getPC G F p = readMarker (getInst F m) \<or> getPC G F p = Inl DispatcherReached"
    proof (cases e)
      case (TwoMarkers m2)
      then have "getPC G F p = Inr (0, 0)" using s by (simp add: getPC_def result_def)
      then show ?thesis using n0 by simp
    next
      case AssertDispatcher
      then show ?thesis using s by (simp add: getPC_def result_def)
    next
      case WorkListEmpty
      show ?thesis
      proof (cases "NewPCCall s'")
        case None
        then have "getPC G F p = Inr (0, 0)"
          using s WorkListEmpty by (simp add: getPC_def result_def)
        then show ?thesis using n0 by simp
      next
        case (Some m')
        then have "reachMarker F (initialCursor p) m'" using post by blast
        then have "m' = m" using u by blast
        then show ?thesis using s WorkListEmpty Some by (simp add: getPC_def result_def)
      qed
    qed
    then show ?thesis using n0 by simp
  qed
  show ?thesis using 1 2 3 4 by blast
qed

theorem C1_second_marker_witness:
  "WorkList twoPathsState = (2, 1) # []
   \<and> NewPCCall twoPathsState = Some (1, 0)
   \<and> findMarker (insts (getBlock twoPaths 2)) 1 = Some 0
   \<and> searchLoop twoPaths None twoPathsState
       = (TwoMarkers (2, 0), twoPathsState\<lparr> WorkList := [] \<rparr>)
   \<and> result twoPaths (searchLoop twoPaths None twoPathsState) = Inr (0, 0)
   \<and> search twoPaths (Dispatcher initialInfo) (0, 1)
       = (TwoMarkers (2, 0), twoPathsState\<lparr> WorkList := [] \<rparr>)
   \<and> getPC initialInfo twoPaths (0, 1) = Inr (0, 0)
   \<and> NewPCCall (twoPathsState\<lparr> WorkList := [] \<rparr>) = Some (1, 0)
   \<and> (1 :: nat, 0 :: nat) \<noteq> (2, 0)
   \<and> isNewPC (getInst twoPaths (1, 0)) \<and> isNewPC (getInst twoPaths (2, 0))
   \<and> reachMarker twoPaths (initialCursor (0, 1)) (1, 0)
   \<and> reachMarker twoPaths (initialCursor (0, 1)) (2, 0)
   \<and> (\<exists>m m'. m \<noteq> m' \<and> reachMarker twoPaths (initialCursor (0, 1)) m
         \<and> reachMarker twoPaths (initialCursor (0, 1)) m')
   \<and> runOnFunction initialInfo (Some (0, ''pc'')) diamond = Inr diamondInfo
   \<and> reachMarker diamond (initialCursor (6, 1)) (3, 0)
   \<and> getPC diamondInfo diamond (6, 1) = readMarker (getInst diamond (3, 0))
   \<and> getPC diamondInfo diamond (6, 1) = Inr (0x3000, 8)
   \<and> getPC diamondInfo diamond (6, 1) \<noteq> Inr (0, 0)"
proof -
  have h: "WorkList twoPathsState = (2, 1) # [] \<and> NewPCCall twoPathsState = Some (1, 0)
      \<and> findMarker (insts (getBlock twoPaths 2)) 1 = Some 0"
    by (simp add: twoPathsState_def twoPaths_def getBlock_def)
  have s: "search twoPaths (Dispatcher initialInfo) (0, 1)
       = (TwoMarkers (2, 0), twoPathsState\<lparr> WorkList := [] \<rparr>)"
    using search_twoPaths by (simp add: initialInfo_def)
  have n: "NewPCCall (twoPathsState\<lparr> WorkList := [] \<rparr>) = Some (1, 0)"
    by (simp add: twoPathsState_def)
  note t = C1_second_marker [where st = twoPathsState and b = 2 and k = 1 and rest = "[]"
      and ?m1.0 = "(1, 0)" and F = twoPaths and i = 0 and D = None and G = initialInfo
      and p = "(0, 1)" and ?m2.0 = "(2, 0)" and st' = "twoPathsState\<lparr> WorkList := [] \<rparr>"]
  note u = C1_second_marker [where F = diamond and G = diamondInfo and p = "(6, 1)"
      and m = "(3, 0)"]
  have a: "searchLoop twoPaths None twoPathsState
       = (TwoMarkers (2, 0), twoPathsState\<lparr> WorkList := [] \<rparr>)
     \<and> result twoPaths (searchLoop twoPaths None twoPathsState) = Inr (0, 0)"
    using t h by blast
  have b: "getPC initialInfo twoPaths (0, 1) = Inr (0, 0)
     \<and> (\<exists>m. NewPCCall (twoPathsState\<lparr> WorkList := [] \<rparr>) = Some m \<and> m \<noteq> (2, 0)
           \<and> isNewPC (getInst twoPaths m) \<and> isNewPC (getInst twoPaths (2, 0))
           \<and> reachMarker twoPaths (initialCursor (0, 1)) m
           \<and> reachMarker twoPaths (initialCursor (0, 1)) (2, 0))"
    using t s by blast
  have c: "\<exists>m m'. m \<noteq> m' \<and> reachMarker twoPaths (initialCursor (0, 1)) m
         \<and> reachMarker twoPaths (initialCursor (0, 1)) m'"
    using t b by blast
  have only: "\<forall>m'. reachMarker diamond (initialCursor (6, 1)) m' \<longrightarrow> m' = (3, 0)"
    using reachMarker_isNewPC marker_diamond by blast
  have d: "(getPC diamondInfo diamond (6, 1) = readMarker (getInst diamond (3, 0))
        \<or> getPC diamondInfo diamond (6, 1) = Inl DispatcherReached)
     \<and> getPC diamondInfo diamond (6, 1) \<noteq> Inr (0, 0)"
    using u reach_diamond only by blast
  have e: "getPC diamondInfo diamond (6, 1) = readMarker (getInst diamond (3, 0))"
    using d getPC_diamond by auto
  show ?thesis
    using h s n a b c d e reach_diamond getPC_diamond runOnFunction_diamond by auto
qed

text \<open>
  C7, as the code has it. A call of \<open>getPC\<close> that returns (no assertion fails)
  returns either \<open>(0, 0)\<close>, the unknown outcome, or the address and the size of a
  marker reachable backward from the point, with a size that is not zero: the two never
  coincide. The unknown outcome is returned when no marker is reachable (unless the
  dispatcher is met first); when a marker is reachable, it is returned only by line 104,
  on meeting a second, distinct reachable marker. Two distinct reachable markers do not
  always give the unknown outcome: once a first marker is found no predecessor is
  explored any more (line 113); the search only scans the blocks already on the work
  list, returns \<open>(0, 0)\<close> if one of them holds a marker, and returns what the first
  marker carries if none does, whatever markers are reachable behind them. In
  particular, when the scan from the point meets no marker and the first block pushed
  for the predecessors holds one, the result depends only on the other blocks pushed
  for the predecessors.
\<close>

theorem C7_outcomes:
  "(getPC G F p = Inr r \<longrightarrow>
       r = (0, 0)
       \<or> (snd r \<noteq> 0
           \<and> (\<exists>m. reachMarker F (initialCursor p) m \<and> isNewPC (getInst F m)
                 \<and> readMarker (getInst F m) = Inr r)))
   \<and> ((\<forall>m. \<not> reachMarker F (initialCursor p) m) \<longrightarrow>
         getPC G F p = Inr (0, 0) \<or> getPC G F p = Inl DispatcherReached)
   \<and> (search F (Dispatcher G) p = (TwoMarkers m2, st) \<longrightarrow> getPC G F p = Inr (0, 0))
   \<and> (search F (Dispatcher G) p = (WorkListEmpty, st) \<and> NewPCCall st = None \<longrightarrow>
         getPC G F p = Inr (0, 0))
   \<and> (reachMarker F (initialCursor p) m \<and> getPC G F p = Inr (0, 0) \<longrightarrow>
         (\<exists>ma mb s. search F (Dispatcher G) p = (TwoMarkers mb, s) \<and> NewPCCall s = Some ma
             \<and> ma \<noteq> mb \<and> reachMarker F (initialCursor p) ma
             \<and> reachMarker F (initialCursor p) mb))
   \<and> (NewPCCall s1 = Some m1 \<longrightarrow>
         result F (searchLoop F D s1) =
           (if \<exists>c \<in> set (WorkList s1). findMarker (insts (getBlock F (fst c))) (snd c) \<noteq> None
            then Inr (0, 0) else readMarker (getInst F m1))
         \<and> ((\<forall>c \<in> set (WorkList s1). findMarker (insts (getBlock F (fst c))) (snd c) = None)
              \<longrightarrow> searchLoop F D s1 = (WorkListEmpty, s1\<lparr> WorkList := [] \<rparr>)))
   \<and> (findMarker (insts (getBlock F b)) (snd (initialCursor (b, i))) = None
        \<and> (\<forall>P \<in> set (predecessors (getBlock F b)). Some P \<noteq> Dispatcher G)
        \<and> WorkList (pushPredecessors F (predecessors (getBlock F b))
                ((initialState (b, i))\<lparr> WorkList := [] \<rparr>)) = (b1, k1) # rest
        \<and> findMarker (insts (getBlock F b1)) k1 = Some j
      \<longrightarrow> getPC G F (b, i) =
           (if \<exists>c \<in> set rest. findMarker (insts (getBlock F (fst c))) (snd c) \<noteq> None
            then Inr (0, 0) else readMarker (getInst F (b1, j))))"
proof -
  obtain e st' where s: "search F (Dispatcher G) p = (e, st')"
    by (cases "search F (Dispatcher G) p")
  note post = search_post [OF s]
  have 1: "r = (0, 0)
       \<or> (snd r \<noteq> 0
           \<and> (\<exists>m. reachMarker F (initialCursor p) m \<and> isNewPC (getInst F m)
                 \<and> readMarker (getInst F m) = Inr r))"
    if g: "getPC G F p = Inr r"
  proof (cases e)
    case (TwoMarkers m)
    then show ?thesis using g s by (simp add: getPC_def result_def)
  next
    case AssertDispatcher
    then show ?thesis using g s by (simp add: getPC_def result_def)
  next
    case WorkListEmpty
    show ?thesis
    proof (cases "NewPCCall st'")
      case None
      then show ?thesis using g s WorkListEmpty by (simp add: getPC_def result_def)
    next
      case (Some m)
      then have r: "readMarker (getInst F m) = Inr r"
        using g s WorkListEmpty by (simp add: getPC_def result_def)
      have "reachMarker F (initialCursor p) m" using post Some by blast
      then show ?thesis using r readMarker_Inr [OF r] reachMarker_isNewPC by blast
    qed
  qed
  have 2: "getPC G F p = Inr (0, 0) \<or> getPC G F p = Inl DispatcherReached"
    if n: "\<forall>m. \<not> reachMarker F (initialCursor p) m"
  proof -
    have "NewPCCall st' = None" using post n by (cases "NewPCCall st'") auto
    then show ?thesis using s by (cases e) (simp_all add: getPC_def result_def)
  qed
  have 3: "getPC G F p = Inr (0, 0)" if "search F (Dispatcher G) p = (TwoMarkers m2, st)"
    using that by (simp add: getPC_def result_def)
  have 4: "getPC G F p = Inr (0, 0)"
    if "search F (Dispatcher G) p = (WorkListEmpty, st) \<and> NewPCCall st = None"
    using that by (simp add: getPC_def result_def)
  have 5: "\<exists>ma mb s. search F (Dispatcher G) p = (TwoMarkers mb, s) \<and> NewPCCall s = Some ma
             \<and> ma \<noteq> mb \<and> reachMarker F (initialCursor p) ma
             \<and> reachMarker F (initialCursor p) mb"
    if a: "reachMarker F (initialCursor p) m \<and> getPC G F p = Inr (0, 0)"
  proof (cases e)
    case (TwoMarkers mb)
    then obtain ma where "NewPCCall st' = Some ma" "ma \<noteq> mb"
      "reachMarker F (initialCursor p) mb" using post by blast
    moreover from this have "reachMarker F (initialCursor p) ma" using post by blast
    ultimately show ?thesis using s TwoMarkers by blast
  next
    case AssertDispatcher
    then show ?thesis using a s by (simp add: getPC_def result_def)
  next
    case WorkListEmpty
    show ?thesis
    proof (cases "NewPCCall st'")
      case None
      then show ?thesis using search_complete [of F "Dispatcher G" p st' m] s WorkListEmpty a
        by simp
    next
      case (Some m')
      then have "readMarker (getInst F m') = Inr (0, 0)"
        using a s WorkListEmpty by (simp add: getPC_def result_def)
      from readMarker_Inr [OF this] show ?thesis by simp
    qed
  qed
  note 6 = searchLoop_drain [of s1 "WorkList s1" m1 F D, OF refl]
  note 7 = getPC_first_predecessor [of F b i G b1 k1 rest j]
  show ?thesis using 1 2 3 4 5 6 7 by blast
qed

theorem C7_outcomes_witness:
  "getPC exampleInfo exampleFunction (4, 1) = Inr (0x1004, 2)
   \<and> snd (0x1004 :: 64 word, 2 :: 64 word) \<noteq> 0
   \<and> (\<exists>m. reachMarker exampleFunction (initialCursor (4, 1)) m
         \<and> isNewPC (getInst exampleFunction m)
         \<and> readMarker (getInst exampleFunction m) = Inr (0x1004, 2))
   \<and> \<not> reachMarker selfLoop (initialCursor (0, 1)) (0, 0)
   \<and> getPC initialInfo selfLoop (0, 1) = Inr (0, 0)
   \<and> search twoPaths (Dispatcher initialInfo) (0, 1)
       = (TwoMarkers (2, 0), twoPathsState\<lparr> WorkList := [] \<rparr>)
   \<and> getPC initialInfo twoPaths (0, 1) = Inr (0, 0)
   \<and> reachMarker threePaths (initialCursor (3, 1)) (4, 0)
   \<and> getPC threePathsInfo threePaths (3, 1) = Inr (0, 0)
   \<and> (\<exists>ma mb s. search threePaths (Dispatcher threePathsInfo) (3, 1) = (TwoMarkers mb, s)
         \<and> NewPCCall s = Some ma \<and> ma \<noteq> mb
         \<and> reachMarker threePaths (initialCursor (3, 1)) ma
         \<and> reachMarker threePaths (initialCursor (3, 1)) mb)
   \<and> NewPCCall divergentState = Some (4, 0)
   \<and> WorkList divergentState = [(5, 1)]
   \<and> findMarker (insts (getBlock divergent 5)) 1 = None
   \<and> searchLoop divergent (Some 0) divergentState
       = (WorkListEmpty, divergentState\<lparr> WorkList := [] \<rparr>)
   \<and> result divergent (searchLoop divergent (Some 0) divergentState) = Inr (0x1000, 4)
   \<and> NewPCCall twoPathsState = Some (1, 0)
   \<and> result twoPaths (searchLoop twoPaths None twoPathsState) = Inr (0, 0)
   \<and> getPC divergentInfo divergent (3, 1) = Inr (0x1000, 4)"
proof -
  have g: "getPC exampleInfo exampleFunction (4, 1) = Inr (0x1004, 2)"
    by (simp add: getPC_def search_def initialState_def initialCursor_def exampleInfo_def
        exampleFunction_def searchLoop.simps getBlock_def result_def getInst_def
        getArgValue_def)
  have n: "\<forall>m. \<not> reachMarker selfLoop (initialCursor (0, 1)) m"
    by (simp add: no_marker_selfLoop)
  have s: "search twoPaths (Dispatcher initialInfo) (0, 1)
       = (TwoMarkers (2, 0), twoPathsState\<lparr> WorkList := [] \<rparr>)"
    using search_twoPaths by (simp add: initialInfo_def)
  have d: "getPC initialInfo selfLoop (0, 1) \<noteq> Inl DispatcherReached"
    using search_selfLoop by (simp add: getPC_def initialInfo_def result_def)
  note t1 = C7_outcomes [where G = exampleInfo and F = exampleFunction and p = "(4, 1)"
      and r = "(0x1004, 2)"]
  note t2 = C7_outcomes [where G = initialInfo and F = selfLoop and p = "(0, 1)"]
  note t3 = C7_outcomes [where G = initialInfo and F = twoPaths and p = "(0, 1)"
      and ?m2.0 = "(2, 0)" and st = "twoPathsState\<lparr> WorkList := [] \<rparr>"
      and ?s1.0 = twoPathsState and ?m1.0 = "(1, 0)" and D = None]
  note t4 = C7_outcomes [where G = threePathsInfo and F = threePaths and p = "(3, 1)"
      and m = "(4, 0)"]
  note t5 = C7_outcomes [where G = divergentInfo and F = divergent
      and ?s1.0 = divergentState and ?m1.0 = "(4, 0)" and D = "Some 0"
      and b = 3 and i = 1 and ?b1.0 = 4 and ?k1.0 = 1 and rest = "[(5, 1)]" and j = 0]
  have a: "\<exists>m. reachMarker exampleFunction (initialCursor (4, 1)) m
         \<and> isNewPC (getInst exampleFunction m)
         \<and> readMarker (getInst exampleFunction m) = Inr (0x1004, 2)"
    using t1 g by auto
  have b: "getPC initialInfo selfLoop (0, 1) = Inr (0, 0)"
    using t2 n d by blast
  have c: "getPC initialInfo twoPaths (0, 1) = Inr (0, 0)"
    using t3 s by blast
  have e: "\<exists>ma mb s. search threePaths (Dispatcher threePathsInfo) (3, 1) = (TwoMarkers mb, s)
         \<and> NewPCCall s = Some ma \<and> ma \<noteq> mb
         \<and> reachMarker threePaths (initialCursor (3, 1)) ma
         \<and> reachMarker threePaths (initialCursor (3, 1)) mb"
    using t4 reach_threePaths getPC_threePaths by blast
  have ds: "NewPCCall divergentState = Some (4, 0)" "WorkList divergentState = [(5, 1)]"
    by (simp_all add: divergentState_def)
  have n5: "findMarker (insts (getBlock divergent 5)) 1 = None"
    by (simp add: divergent_def getBlock_def)
  have pend: "\<forall>c \<in> set (WorkList divergentState).
      findMarker (insts (getBlock divergent (fst c))) (snd c) = None"
    using ds n5 by simp
  have r4: "readMarker (getInst divergent (4, 0)) = Inr (0x1000, 4)"
    by (simp add: divergent_def getInst_def getBlock_def getArgValue_def)
  have f0: "result divergent (searchLoop divergent (Some 0) divergentState) =
      (if \<exists>c \<in> set (WorkList divergentState).
            findMarker (insts (getBlock divergent (fst c))) (snd c) \<noteq> None
       then Inr (0, 0) else readMarker (getInst divergent (4, 0)))"
    using t5 ds(1) by blast
  have f1: "searchLoop divergent (Some 0) divergentState
       = (WorkListEmpty, divergentState\<lparr> WorkList := [] \<rparr>)"
    using t5 ds(1) pend by blast
  have nopend: "\<not> (\<exists>c \<in> set (WorkList divergentState).
      findMarker (insts (getBlock divergent (fst c))) (snd c) \<noteq> None)"
    using pend by simp
  have fr: "result divergent (searchLoop divergent (Some 0) divergentState) = Inr (0x1000, 4)"
    unfolding f0 using nopend r4 by (simp only: if_False)
  have ts: "NewPCCall twoPathsState = Some (1, 0)"
    by (simp add: twoPathsState_def)
  have pend2: "\<exists>c \<in> set (WorkList twoPathsState).
      findMarker (insts (getBlock twoPaths (fst c))) (snd c) \<noteq> None"
    by (simp add: twoPathsState_def twoPaths_def getBlock_def)
  have f2': "result twoPaths (searchLoop twoPaths None twoPathsState) =
      (if \<exists>c \<in> set (WorkList twoPathsState).
            findMarker (insts (getBlock twoPaths (fst c))) (snd c) \<noteq> None
       then Inr (0, 0) else readMarker (getInst twoPaths (1, 0)))"
    using t3 ts by blast
  have f2: "result twoPaths (searchLoop twoPaths None twoPathsState) = Inr (0, 0)"
    unfolding f2' using pend2 by (simp only: if_True)
  have h1: "findMarker (insts (getBlock divergent 3)) (snd (initialCursor (3, 1))) = None"
    by (simp add: divergent_def getBlock_def initialCursor_def)
  have h2: "\<forall>P \<in> set (predecessors (getBlock divergent 3)). Some P \<noteq> Dispatcher divergentInfo"
    by (simp add: divergent_def getBlock_def divergentInfo_def)
  have h3: "WorkList (pushPredecessors divergent (predecessors (getBlock divergent 3))
                ((initialState (3, 1))\<lparr> WorkList := [] \<rparr>)) = (4, 1) # [(5, 1)]"
    by (simp add: divergent_def getBlock_def initialState_def)
  have h4: "findMarker (insts (getBlock divergent 4)) 1 = Some 0"
    by (simp add: divergent_def getBlock_def)
  have h5: "\<not> (\<exists>c \<in> set [(5 :: nat, 1 :: nat)].
      findMarker (insts (getBlock divergent (fst c))) (snd c) \<noteq> None)"
    using n5 by simp
  have k: "getPC divergentInfo divergent (3, 1) = Inr (0x1000, 4)"
    using t5 h1 h2 h3 h4 h5 r4 by auto
  have z: "snd (0x1004 :: 64 word, 2 :: 64 word) \<noteq> 0" by simp
  have nn: "\<not> reachMarker selfLoop (initialCursor (0, 1)) (0, 0)"
    using n by blast
  show ?thesis
    using g z a nn b s c reach_threePaths getPC_threePaths e ds n5 f1 fr ts f2 k
    by (intro conjI)
qed

text \<open>
  C7, as the claim states it, fails. The function is classified without a fault. From
  the second instruction of block 3 two distinct markers are reachable backward, on
  paths that diverge: the marker of block 4, and the marker of block 6 through block 5.
  The search finds the first, scans block 5 without exploring its predecessors, and
  returns the address and size of the first marker, not the unknown outcome.
\<close>

theorem C7_divergent_markers_counterexample:
  "runOnFunction initialInfo (Some (0, ''pc'')) divergent = Inr divergentInfo
   \<and> reachMarker divergent (initialCursor (3, 1)) (4, 0)
   \<and> reachMarker divergent (initialCursor (3, 1)) (6, 0)
   \<and> (4 :: nat, 0 :: nat) \<noteq> (6, 0)
   \<and> getPC divergentInfo divergent (3, 1) = Inr (0x1000, 4)
   \<and> getPC divergentInfo divergent (3, 1) \<noteq> Inr (0, 0)"
  using reach_divergent search_divergent runOnFunction_divergent
  by (simp add: getPC_def divergentInfo_def result_def getInst_def getBlock_def divergent_def
      getArgValue_def)

text \<open>
  C8, as the code has it. The search ends for every function and query point (the
  function \<open>searchLoop\<close> is total: each iteration takes one iterator off the work
  list, and each push marks a block as visited that was not). After the first iterator,
  which is pushed without marking its block, every block is pushed at most once, only
  when it is not empty, as a predecessor, and the dispatcher never is. So the number of
  iterators pushed during the whole search is at most the number of blocks plus one,
  and at most the number of blocks when the dispatcher is a block of the function.
\<close>

theorem C8_enqueued_once:
  "search F D p = (e, st') \<longrightarrow>
     (\<exists>E. Enqueued st' = initialCursor p # E
         \<and> distinct (map fst E)
         \<and> (\<forall>c \<in> set E. fst c < length F \<and> insts (getBlock F (fst c)) \<noteq> []
               \<and> snd c = length (insts (getBlock F (fst c))) \<and> Some (fst c) \<noteq> D)
         \<and> length E \<le> length F)
     \<and> length (Enqueued st') \<le> length F + 1
     \<and> (\<forall>d. D = Some d \<and> d < length F \<longrightarrow> length (Enqueued st') \<le> length F)"
proof
  assume s: "search F D p = (e, st')"
  from search_post [OF s] obtain E where E: "Enqueued st' = initialCursor p # E"
    "distinct (map fst E)"
    "\<forall>c \<in> set E. fst c < length F \<and> insts (getBlock F (fst c)) \<noteq> []
               \<and> snd c = length (insts (getBlock F (fst c)))"
    unfolding enqueuedInv_def by blast
  have nd: "\<forall>c \<in> set E. Some (fst c) \<noteq> D"
    using search_not_dispatcher [OF s] E(1) by simp
  have "length (map fst E) \<le> length F"
    using E(2,3) by (intro distinct_bounded_length) auto
  then have l: "length E \<le> length F" by simp
  then have l1: "length (Enqueued st') \<le> length F + 1" using E(1) by simp
  have l2: "length (Enqueued st') \<le> length F" if d: "D = Some d \<and> d < length F" for d
  proof -
    have "d \<notin> set (map fst E)" using nd d by auto
    then have "distinct (d # map fst E)" using E(2) by simp
    moreover have "\<forall>x \<in> set (d # map fst E). x < length F" using E(3) d by auto
    ultimately have "length (d # map fst E) \<le> length F"
      by (rule distinct_bounded_length)
    then show ?thesis using E(1) by simp
  qed
  show "(\<exists>E. Enqueued st' = initialCursor p # E
         \<and> distinct (map fst E)
         \<and> (\<forall>c \<in> set E. fst c < length F \<and> insts (getBlock F (fst c)) \<noteq> []
               \<and> snd c = length (insts (getBlock F (fst c))) \<and> Some (fst c) \<noteq> D)
         \<and> length E \<le> length F)
     \<and> length (Enqueued st') \<le> length F + 1
     \<and> (\<forall>d. D = Some d \<and> d < length F \<longrightarrow> length (Enqueued st') \<le> length F)"
    using E nd l l1 l2 by blast
qed

theorem C8_enqueued_once_witness:
  "search loopBack (Some 0) (4, 1) = (WorkListEmpty, loopBackFinal)
   \<and> (0 :: nat) < length loopBack
   \<and> Enqueued loopBackFinal = initialCursor (4, 1) # [(3, 2), (4, 2)]
   \<and> length (Enqueued loopBackFinal) \<le> length loopBack
   \<and> search selfLoop None (0, 1)
       = (WorkListEmpty,
          \<lparr> NewPCCall = None, Visited = {0}, WorkList = [], Enqueued = [(0, 1), (0, 2)] \<rparr>)
   \<and> length [(0 :: nat, 1 :: nat), (0, 2)] \<le> length selfLoop + 1"
proof -
  note t = C8_enqueued_once [of loopBack "Some 0" "(4, 1)" WorkListEmpty loopBackFinal]
  note u = C8_enqueued_once [of selfLoop None "(0, 1)" WorkListEmpty
      "\<lparr> NewPCCall = None, Visited = {0}, WorkList = [], Enqueued = [(0, 1), (0, 2)] \<rparr>"]
  have d: "(0 :: nat) < length loopBack" by (simp add: loopBack_def)
  have a: "length (Enqueued loopBackFinal) \<le> length loopBack"
    using t search_loopBack d by blast
  have b: "length [(0 :: nat, 1 :: nat), (0, 2)] \<le> length selfLoop + 1"
    using u search_selfLoop by auto
  show ?thesis
    using search_loopBack search_selfLoop d a b
    by (simp add: loopBackFinal_def initialCursor_def)
qed

text \<open>
  C8, as the claim states it, fails. The function is classified without a fault. The
  search from the second instruction of block 4 pushes block 4 twice: first the iterator
  before the point, then, as a predecessor of itself, the iterator at the end of the
  block.
\<close>

theorem C8_loop_back_counterexample:
  "runOnFunction initialInfo (Some (0, ''pc'')) loopBack = Inr loopBackInfo
   \<and> Dispatcher loopBackInfo = Some 0
   \<and> search loopBack (Some 0) (4, 1) = (WorkListEmpty, loopBackFinal)
   \<and> Enqueued loopBackFinal = [(4, 1), (3, 2), (4, 2)]
   \<and> \<not> distinct (map fst (Enqueued loopBackFinal))
   \<and> getPC loopBackInfo loopBack (4, 1) = Inr (0x1000, 4)"
  using runOnFunction_loopBack search_loopBack
  by (simp add: loopBackInfo_def loopBackFinal_def getPC_def result_def getInst_def
      getBlock_def loopBack_def getArgValue_def)

subsection \<open>The dispatcher among the predecessors\<close>

text \<open>
  C6. In any state of the search in which no marker has been found, if the scan of the
  next block on the work list finds no marker and the dispatcher is one of the
  predecessors of that block, then \<open>getPC\<close> ends in the failed assertion of line 117:
  the outcome is a fault, neither \<open>(0, 0)\<close> nor an address and a size. Assertions
  are taken as enabled.
\<close>

theorem C6_dispatcher_reached:
  assumes "WorkList st = (b, k) # rest"
    and "NewPCCall st = None"
    and "findMarker (insts (getBlock F b)) k = None"
    and "Dispatcher G = Some d"
    and "d \<in> set (predecessors (getBlock F b))"
  shows "result F (searchLoop F (Dispatcher G) st) = Inl DispatcherReached
         \<and> (\<forall>r. result F (searchLoop F (Dispatcher G) st) \<noteq> Inr r)"
  using searchLoop_dispatcher [OF assms(1,2,3,5)] assms(4) by (simp add: result_def)

theorem C6_dispatcher_reached_witness:
  "WorkList (initialState (1, 0)) = (1, 1) # []
   \<and> NewPCCall (initialState (1, 0)) = None
   \<and> findMarker (insts (getBlock exampleFunction 1)) 1 = None
   \<and> Dispatcher exampleInfo = Some 0
   \<and> 0 \<in> set (predecessors (getBlock exampleFunction 1))
   \<and> getPC exampleInfo exampleFunction (1, 0) = Inl DispatcherReached"
proof -
  have 1: "WorkList (initialState (1, 0)) = (1, 1) # []"
    by (simp add: initialState_def initialCursor_def)
  have 2: "NewPCCall (initialState (1, 0)) = None"
    by (simp add: initialState_def)
  have 3: "findMarker (insts (getBlock exampleFunction 1)) 1 = None"
    by (simp add: exampleFunction_def getBlock_def)
  have 4: "Dispatcher exampleInfo = Some 0"
    by (simp add: exampleInfo_def)
  have 5: "0 \<in> set (predecessors (getBlock exampleFunction 1))"
    by (simp add: exampleFunction_def getBlock_def)
  show ?thesis
    using 1 2 3 4 5 C6_dispatcher_reached [OF 1 2 3 4 5]
    by (simp add: getPC_def search_def)
qed

subsection \<open>Block classification\<close>

lemma visitBlock_Inr:
  assumes "visitBlock G b BB = Inr G'"
  shows "Dispatcher G' = (if classifiedAs BB DispatcherBlock then Some b else Dispatcher G)"
    and "classifiedAs BB DispatcherBlock \<Longrightarrow> Dispatcher G = None"
    and "AnyPC G' = (if classifiedAs BB AnyPCBlock then Some b else AnyPC G)"
    and "classifiedAs BB AnyPCBlock \<Longrightarrow> AnyPC G = None"
    and "UnexpectedPC G' = (if classifiedAs BB UnexpectedPCBlock then Some b else UnexpectedPC G)"
    and "classifiedAs BB UnexpectedPCBlock \<Longrightarrow> UnexpectedPC G = None"
    and "classifiedAs BB JumpTargetBlock \<Longrightarrow> \<exists>a. jumpTargetAddress BB = Inr a"
    and "JumpTargets G' a = Some t \<longleftrightarrow>
           (jumpTargetAt BB a \<and> t = b) \<or> (\<not> jumpTargetAt BB a \<and> JumpTargets G a = Some t)"
  using assms
  by (auto simp: visitBlock_def classifiedAs_def jumpTargetAt_def
      split: if_splits BlockType.splits sum.splits)

lemma visitBlocks_Dispatcher:
  "visitBlocks G b0 Bs = Inr G' \<Longrightarrow>
     (Dispatcher G \<noteq> None \<longrightarrow>
        Dispatcher G' = Dispatcher G \<and> (\<forall>i<length Bs. \<not> classifiedAs (Bs ! i) DispatcherBlock))
     \<and> (Dispatcher G = None \<longrightarrow>
        (\<forall>d. Dispatcher G' = Some d \<longrightarrow> b0 \<le> d \<and> d < b0 + length Bs)
        \<and> (\<forall>i<length Bs. classifiedAs (Bs ! i) DispatcherBlock \<longleftrightarrow> Dispatcher G' = Some (b0 + i)))"
proof (induction Bs arbitrary: G b0)
  case Nil
  then show ?case by simp
next
  case (Cons BB rest)
  from Cons.prems obtain G1 where
    1: "visitBlock G b0 BB = Inr G1" and 2: "visitBlocks G1 (Suc b0) rest = Inr G'"
    by (auto split: sum.splits)
  note IH = Cons.IH [OF 2]
  note V = visitBlock_Inr(1,2) [OF 1]
  show ?case
  proof (cases "classifiedAs BB DispatcherBlock")
    case True
    then show ?thesis using IH V by (auto simp: All_less_Suc2)
  next
    case False
    then show ?thesis using IH V by (auto simp: All_less_Suc2)
  qed
qed

lemma visitBlocks_AnyPC:
  "visitBlocks G b0 Bs = Inr G' \<Longrightarrow>
     (AnyPC G \<noteq> None \<longrightarrow>
        AnyPC G' = AnyPC G \<and> (\<forall>i<length Bs. \<not> classifiedAs (Bs ! i) AnyPCBlock))
     \<and> (AnyPC G = None \<longrightarrow>
        (\<forall>d. AnyPC G' = Some d \<longrightarrow> b0 \<le> d \<and> d < b0 + length Bs)
        \<and> (\<forall>i<length Bs. classifiedAs (Bs ! i) AnyPCBlock \<longleftrightarrow> AnyPC G' = Some (b0 + i)))"
proof (induction Bs arbitrary: G b0)
  case Nil
  then show ?case by simp
next
  case (Cons BB rest)
  from Cons.prems obtain G1 where
    1: "visitBlock G b0 BB = Inr G1" and 2: "visitBlocks G1 (Suc b0) rest = Inr G'"
    by (auto split: sum.splits)
  note IH = Cons.IH [OF 2]
  note V = visitBlock_Inr(3,4) [OF 1]
  show ?case
  proof (cases "classifiedAs BB AnyPCBlock")
    case True
    then show ?thesis using IH V by (auto simp: All_less_Suc2)
  next
    case False
    then show ?thesis using IH V by (auto simp: All_less_Suc2)
  qed
qed

lemma visitBlocks_UnexpectedPC:
  "visitBlocks G b0 Bs = Inr G' \<Longrightarrow>
     (UnexpectedPC G \<noteq> None \<longrightarrow>
        UnexpectedPC G' = UnexpectedPC G \<and> (\<forall>i<length Bs. \<not> classifiedAs (Bs ! i) UnexpectedPCBlock))
     \<and> (UnexpectedPC G = None \<longrightarrow>
        (\<forall>d. UnexpectedPC G' = Some d \<longrightarrow> b0 \<le> d \<and> d < b0 + length Bs)
        \<and> (\<forall>i<length Bs. classifiedAs (Bs ! i) UnexpectedPCBlock \<longleftrightarrow> UnexpectedPC G' = Some (b0 + i)))"
proof (induction Bs arbitrary: G b0)
  case Nil
  then show ?case by simp
next
  case (Cons BB rest)
  from Cons.prems obtain G1 where
    1: "visitBlock G b0 BB = Inr G1" and 2: "visitBlocks G1 (Suc b0) rest = Inr G'"
    by (auto split: sum.splits)
  note IH = Cons.IH [OF 2]
  note V = visitBlock_Inr(5,6) [OF 1]
  show ?case
  proof (cases "classifiedAs BB UnexpectedPCBlock")
    case True
    then show ?thesis using IH V by (auto simp: All_less_Suc2)
  next
    case False
    then show ?thesis using IH V by (auto simp: All_less_Suc2)
  qed
qed

lemma visitBlocks_JumpTargets:
  "visitBlocks G b0 Bs = Inr G' \<Longrightarrow>
     (\<forall>i<length Bs. classifiedAs (Bs ! i) JumpTargetBlock \<longrightarrow> (\<exists>a. jumpTargetAddress (Bs ! i) = Inr a))
     \<and> (JumpTargets G' a = Some t \<longleftrightarrow>
          (\<exists>i<length Bs. t = b0 + i \<and> jumpTargetAt (Bs ! i) a
              \<and> (\<forall>j<length Bs. i < j \<longrightarrow> \<not> jumpTargetAt (Bs ! j) a))
          \<or> (JumpTargets G a = Some t \<and> (\<forall>j<length Bs. \<not> jumpTargetAt (Bs ! j) a)))"
proof (induction Bs arbitrary: G b0)
  case Nil
  then show ?case by simp
next
  case (Cons BB rest)
  from Cons.prems obtain G1 where
    1: "visitBlock G b0 BB = Inr G1" and 2: "visitBlocks G1 (Suc b0) rest = Inr G'"
    by (auto split: sum.splits)
  note IH = Cons.IH [OF 2]
  note V = visitBlock_Inr(7,8) [OF 1]
  show ?case
  proof (intro conjI)
    show "\<forall>i<length (BB # rest). classifiedAs ((BB # rest) ! i) JumpTargetBlock \<longrightarrow>
          (\<exists>a. jumpTargetAddress ((BB # rest) ! i) = Inr a)"
      using IH V(1) by (simp add: All_less_Suc2)
  next
    show "JumpTargets G' a = Some t \<longleftrightarrow>
          (\<exists>i<length (BB # rest). t = b0 + i \<and> jumpTargetAt ((BB # rest) ! i) a
              \<and> (\<forall>j<length (BB # rest). i < j \<longrightarrow> \<not> jumpTargetAt ((BB # rest) ! j) a))
          \<or> (JumpTargets G a = Some t \<and> (\<forall>j<length (BB # rest). \<not> jumpTargetAt ((BB # rest) ! j) a))"
      using IH V(2) [of a t] by (simp add: All_less_Suc2 Ex_less_Suc2) blast
  qed
qed

lemma visitBlock_succeeds:
  assumes "classifiedAs BB DispatcherBlock \<Longrightarrow> Dispatcher G = None"
    and "classifiedAs BB AnyPCBlock \<Longrightarrow> AnyPC G = None"
    and "classifiedAs BB UnexpectedPCBlock \<Longrightarrow> UnexpectedPC G = None"
    and "classifiedAs BB JumpTargetBlock \<Longrightarrow> \<not> isl (jumpTargetAddress BB)"
  shows "\<exists>G'. visitBlock G b BB = Inr G'"
  using assms
  by (cases "getType BB"; cases "jumpTargetAddress BB")
     (auto simp: visitBlock_def classifiedAs_def)

lemma visitBlocks_succeeds:
  assumes "length (filter (\<lambda>BB. classifiedAs BB DispatcherBlock) Bs)
             + (if Dispatcher G = None then 0 else 1) \<le> 1"
    and "length (filter (\<lambda>BB. classifiedAs BB AnyPCBlock) Bs)
             + (if AnyPC G = None then 0 else 1) \<le> 1"
    and "length (filter (\<lambda>BB. classifiedAs BB UnexpectedPCBlock) Bs)
             + (if UnexpectedPC G = None then 0 else 1) \<le> 1"
    and "\<forall>BB \<in> set Bs. classifiedAs BB JumpTargetBlock \<longrightarrow> \<not> isl (jumpTargetAddress BB)"
  shows "\<exists>G'. visitBlocks G b0 Bs = Inr G'"
  using assms
proof (induction Bs arbitrary: G b0)
  case Nil
  then show ?case by simp
next
  case (Cons BB rest)
  have "\<exists>G1. visitBlock G b0 BB = Inr G1"
    using Cons.prems by (intro visitBlock_succeeds) (auto split: if_splits)
  then obtain G1 where 1: "visitBlock G b0 BB = Inr G1" ..
  note V = visitBlock_Inr(1,3,5) [OF 1]
  have "\<exists>G'. visitBlocks G1 (Suc b0) rest = Inr G'"
    using Cons.prems V by (intro Cons.IH) (auto split: if_splits)
  then show ?case using 1 by simp
qed

lemma filter_nonempty_nth:
  "filter P xs \<noteq> [] \<Longrightarrow> \<exists>i<length xs. P (xs ! i)"
  by (metis filter_False in_set_conv_nth)

lemma runOnFunction_example:
  "runOnFunction initialInfo (Some (0, ''pc'')) exampleFunction = Inr exampleInfo"
  by (simp add: runOnFunction_def initialInfo_def exampleFunction_def exampleInfo_def
      visitBlock_def jumpTargetAddress_def getArgValue_def eval_nat_numeral)

lemma runOnFunction_sharedAddress:
  "runOnFunction initialInfo (Some (0, ''pc'')) sharedAddress = Inr sharedAddressInfo"
  by (simp add: runOnFunction_def initialInfo_def sharedAddress_def sharedAddressInfo_def
      visitBlock_def jumpTargetAddress_def getArgValue_def eval_nat_numeral)

text \<open>
  C5. Visiting a block of a singleton type when the slot of that type is already filled
  fails the assertion of that slot. A well-formed function is classified without a
  fault. Whenever classification returns, it has recorded exactly one block for each of
  the dispatcher, any-PC and unexpected-PC roles: the recorded block is the only
  visited block of that type. No block has two roles: the three recorded blocks differ,
  and every block of the jump target table is a visited jump target block, different
  from the three.
\<close>

theorem C5_singleton_roles:
  "(Dispatcher G \<noteq> None \<and> classifiedAs BB DispatcherBlock
      \<longrightarrow> visitBlock G b BB = Inl DuplicateDispatcher)
   \<and> (AnyPC G \<noteq> None \<and> classifiedAs BB AnyPCBlock
      \<longrightarrow> visitBlock G b BB = Inl DuplicateAnyPC)
   \<and> (UnexpectedPC G \<noteq> None \<and> classifiedAs BB UnexpectedPCBlock
      \<longrightarrow> visitBlock G b BB = Inl DuplicateUnexpectedPC)
   \<and> (wellFormed F \<longrightarrow> (\<exists>G'. runOnFunction initialInfo (Some md) F = Inr G'))
   \<and> (runOnFunction initialInfo Tuple F = Inr G' \<longrightarrow>
        (\<exists>d a u. Dispatcher G' = Some d \<and> AnyPC G' = Some a \<and> UnexpectedPC G' = Some u
           \<and> d < length F \<and> a < length F \<and> u < length F
           \<and> (\<forall>i<length F.
                 (classifiedAs (F ! i) DispatcherBlock \<longleftrightarrow> i = d)
                 \<and> (classifiedAs (F ! i) AnyPCBlock \<longleftrightarrow> i = a)
                 \<and> (classifiedAs (F ! i) UnexpectedPCBlock \<longleftrightarrow> i = u))
           \<and> d \<noteq> a \<and> d \<noteq> u \<and> a \<noteq> u
           \<and> (\<forall>x t. jumpTargetFor G' x = Some t \<longrightarrow>
                 t < length F \<and> classifiedAs (F ! t) JumpTargetBlock
                 \<and> t \<noteq> d \<and> t \<noteq> a \<and> t \<noteq> u)))"
proof (intro conjI impI)
  assume wf: "wellFormed F"
  let ?G0 = "initialInfo\<lparr> GCBI_DelaySlotSize := fst md, PC := snd md \<rparr>"
  have "\<exists>G1. visitBlocks ?G0 0 F = Inr G1"
    using wf by (intro visitBlocks_succeeds) (simp_all add: wellFormed_def initialInfo_def)
  then obtain G1 where 1: "visitBlocks ?G0 0 F = Inr G1" ..
  have e: "\<exists>i<length F. classifiedAs (F ! i) DispatcherBlock"
      "\<exists>i<length F. classifiedAs (F ! i) AnyPCBlock"
      "\<exists>i<length F. classifiedAs (F ! i) UnexpectedPCBlock"
    using wf by (auto simp: wellFormed_def intro!: filter_nonempty_nth)
  have "Dispatcher G1 \<noteq> None"
    using visitBlocks_Dispatcher [OF 1] e(1) by (auto simp: initialInfo_def)
  moreover have "AnyPC G1 \<noteq> None"
    using visitBlocks_AnyPC [OF 1] e(2) by (auto simp: initialInfo_def)
  moreover have "UnexpectedPC G1 \<noteq> None"
    using visitBlocks_UnexpectedPC [OF 1] e(3) by (auto simp: initialInfo_def)
  ultimately show "\<exists>G'. runOnFunction initialInfo (Some md) F = Inr G'"
    using 1 by (simp add: runOnFunction_def)
next
  assume r: "runOnFunction initialInfo Tuple F = Inr G'"
  then obtain md where md: "Tuple = Some md"
    by (cases Tuple) (auto simp: runOnFunction_def)
  let ?G0 = "initialInfo\<lparr> GCBI_DelaySlotSize := fst md, PC := snd md \<rparr>"
  from r md have 1: "visitBlocks ?G0 0 F = Inr G'"
    and s: "Dispatcher G' \<noteq> None" "AnyPC G' \<noteq> None" "UnexpectedPC G' \<noteq> None"
    by (auto simp: runOnFunction_def split: sum.splits if_splits)
  from s obtain d a u where dau: "Dispatcher G' = Some d" "AnyPC G' = Some a" "UnexpectedPC G' = Some u"
    by auto
  have D: "d < length F" "\<forall>i<length F. classifiedAs (F ! i) DispatcherBlock \<longleftrightarrow> i = d"
    using visitBlocks_Dispatcher [OF 1] dau(1) by (auto simp: initialInfo_def)
  have A: "a < length F" "\<forall>i<length F. classifiedAs (F ! i) AnyPCBlock \<longleftrightarrow> i = a"
    using visitBlocks_AnyPC [OF 1] dau(2) by (auto simp: initialInfo_def)
  have U: "u < length F" "\<forall>i<length F. classifiedAs (F ! i) UnexpectedPCBlock \<longleftrightarrow> i = u"
    using visitBlocks_UnexpectedPC [OF 1] dau(3) by (auto simp: initialInfo_def)
  have J: "t < length F \<and> jumpTargetAt (F ! t) x" if "jumpTargetFor G' x = Some t" for x t
    using visitBlocks_JumpTargets [OF 1, of x t] that
    by (auto simp: initialInfo_def jumpTargetFor_def)
  have cd: "classifiedAs (F ! d) DispatcherBlock" using D by blast
  have ca: "classifiedAs (F ! a) AnyPCBlock" using A by blast
  have cu: "classifiedAs (F ! u) UnexpectedPCBlock" using U by blast
  have ne: "d \<noteq> a" "d \<noteq> u" "a \<noteq> u"
    using cd ca cu by (auto simp: classifiedAs_def)
  have J': "t < length F \<and> classifiedAs (F ! t) JumpTargetBlock \<and> t \<noteq> d \<and> t \<noteq> a \<and> t \<noteq> u"
    if "jumpTargetFor G' x = Some t" for x t
    using J [OF that] cd ca cu by (auto simp: jumpTargetAt_def classifiedAs_def)
  show "\<exists>d a u. Dispatcher G' = Some d \<and> AnyPC G' = Some a \<and> UnexpectedPC G' = Some u
           \<and> d < length F \<and> a < length F \<and> u < length F
           \<and> (\<forall>i<length F.
                 (classifiedAs (F ! i) DispatcherBlock \<longleftrightarrow> i = d)
                 \<and> (classifiedAs (F ! i) AnyPCBlock \<longleftrightarrow> i = a)
                 \<and> (classifiedAs (F ! i) UnexpectedPCBlock \<longleftrightarrow> i = u))
           \<and> d \<noteq> a \<and> d \<noteq> u \<and> a \<noteq> u
           \<and> (\<forall>x t. jumpTargetFor G' x = Some t \<longrightarrow>
                 t < length F \<and> classifiedAs (F ! t) JumpTargetBlock
                 \<and> t \<noteq> d \<and> t \<noteq> a \<and> t \<noteq> u)"
    using dau D A U ne J' by blast
qed (auto simp: visitBlock_def classifiedAs_def)

theorem C5_singleton_roles_witness:
  "Dispatcher exampleInfo \<noteq> None \<and> classifiedAs (exampleFunction ! 0) DispatcherBlock
   \<and> visitBlock exampleInfo 5 (exampleFunction ! 0) = Inl DuplicateDispatcher
   \<and> AnyPC exampleInfo \<noteq> None \<and> classifiedAs (exampleFunction ! 1) AnyPCBlock
   \<and> visitBlock exampleInfo 5 (exampleFunction ! 1) = Inl DuplicateAnyPC
   \<and> UnexpectedPC exampleInfo \<noteq> None \<and> classifiedAs (exampleFunction ! 2) UnexpectedPCBlock
   \<and> visitBlock exampleInfo 5 (exampleFunction ! 2) = Inl DuplicateUnexpectedPC
   \<and> wellFormed exampleFunction
   \<and> runOnFunction initialInfo (Some (0, ''pc'')) exampleFunction = Inr exampleInfo
   \<and> Dispatcher exampleInfo = Some 0 \<and> AnyPC exampleInfo = Some 1
   \<and> UnexpectedPC exampleInfo = Some 2
   \<and> (\<exists>G'. runOnFunction initialInfo (Some (0, ''pc'')) exampleFunction = Inr G')
   \<and> (\<exists>d a u. Dispatcher exampleInfo = Some d \<and> AnyPC exampleInfo = Some a
         \<and> UnexpectedPC exampleInfo = Some u \<and> d \<noteq> a \<and> d \<noteq> u \<and> a \<noteq> u)"
proof -
  have h: "Dispatcher exampleInfo \<noteq> None" "classifiedAs (exampleFunction ! 0) DispatcherBlock"
    "AnyPC exampleInfo \<noteq> None" "classifiedAs (exampleFunction ! 1) AnyPCBlock"
    "UnexpectedPC exampleInfo \<noteq> None" "classifiedAs (exampleFunction ! 2) UnexpectedPCBlock"
    by (simp_all add: exampleInfo_def exampleFunction_def classifiedAs_def)
  have wf: "wellFormed exampleFunction"
    by (simp add: wellFormed_def exampleFunction_def classifiedAs_def jumpTargetAddress_def
        getArgValue_def)
  have i: "Dispatcher exampleInfo = Some 0" "AnyPC exampleInfo = Some 1"
    "UnexpectedPC exampleInfo = Some 2"
    by (simp_all add: exampleInfo_def)
  note t0 = C5_singleton_roles [of exampleInfo "exampleFunction ! 0" 5 exampleFunction
      "(0, ''pc'')" "Some (0, ''pc'')" exampleInfo]
  note t1 = C5_singleton_roles [of exampleInfo "exampleFunction ! 1" 5 exampleFunction
      "(0, ''pc'')" "Some (0, ''pc'')" exampleInfo]
  note t2 = C5_singleton_roles [of exampleInfo "exampleFunction ! 2" 5 exampleFunction
      "(0, ''pc'')" "Some (0, ''pc'')" exampleInfo]
  have d0: "visitBlock exampleInfo 5 (exampleFunction ! 0) = Inl DuplicateDispatcher"
    using t0 h by blast
  have d1: "visitBlock exampleInfo 5 (exampleFunction ! 1) = Inl DuplicateAnyPC"
    using t1 h by blast
  have d2: "visitBlock exampleInfo 5 (exampleFunction ! 2) = Inl DuplicateUnexpectedPC"
    using t2 h by blast
  have s: "\<exists>G'. runOnFunction initialInfo (Some (0, ''pc'')) exampleFunction = Inr G'"
    using t0 wf by blast
  have r: "\<exists>d a u. Dispatcher exampleInfo = Some d \<and> AnyPC exampleInfo = Some a
         \<and> UnexpectedPC exampleInfo = Some u \<and> d \<noteq> a \<and> d \<noteq> u \<and> a \<noteq> u"
    using t0 runOnFunction_example by blast
  show ?thesis
    using h wf i d0 d1 d2 s r runOnFunction_example by simp
qed

text \<open>
  C4. Whenever \<^verbatim>\<open>runOnFunction\<close> returns, all three singleton blocks are recorded.
  When the loop over the blocks completes and one of the three is still missing, the
  assertion of lines 70-72 fails. So a function that lacks a visited block of one of the
  three types is never classified: the outcome is a fault. Assertions are taken as
  enabled.
\<close>

theorem C4_missing_singleton:
  "(runOnFunction G Tuple F = Inr G' \<longrightarrow>
      Dispatcher G' \<noteq> None \<and> AnyPC G' \<noteq> None \<and> UnexpectedPC G' \<noteq> None)
   \<and> (visitBlocks (G\<lparr> GCBI_DelaySlotSize := fst md, PC := snd md \<rparr>) 0 F = Inr G1
        \<and> (Dispatcher G1 = None \<or> AnyPC G1 = None \<or> UnexpectedPC G1 = None)
      \<longrightarrow> runOnFunction G (Some md) F = Inl MissingSingleton)
   \<and> ((\<forall>i<length F. \<not> classifiedAs (F ! i) DispatcherBlock)
        \<or> (\<forall>i<length F. \<not> classifiedAs (F ! i) AnyPCBlock)
        \<or> (\<forall>i<length F. \<not> classifiedAs (F ! i) UnexpectedPCBlock)
      \<longrightarrow> isl (runOnFunction initialInfo Tuple F))"
proof -
  have 1: "Dispatcher G' \<noteq> None \<and> AnyPC G' \<noteq> None \<and> UnexpectedPC G' \<noteq> None"
    if "runOnFunction G Tuple F = Inr G'"
    using that by (auto simp: runOnFunction_def split: option.splits sum.splits if_splits)
  have 2: "runOnFunction G (Some md) F = Inl MissingSingleton"
    if "visitBlocks (G\<lparr> GCBI_DelaySlotSize := fst md, PC := snd md \<rparr>) 0 F = Inr G1
        \<and> (Dispatcher G1 = None \<or> AnyPC G1 = None \<or> UnexpectedPC G1 = None)"
    using that by (auto simp: runOnFunction_def)
  have 3: "isl (runOnFunction initialInfo Tuple F)"
    if missing: "(\<forall>i<length F. \<not> classifiedAs (F ! i) DispatcherBlock)
        \<or> (\<forall>i<length F. \<not> classifiedAs (F ! i) AnyPCBlock)
        \<or> (\<forall>i<length F. \<not> classifiedAs (F ! i) UnexpectedPCBlock)"
  proof (cases "runOnFunction initialInfo Tuple F")
    case (Inl e)
    then show ?thesis by simp
  next
    case (Inr G')
    then obtain md where md: "Tuple = Some md"
      by (cases Tuple) (auto simp: runOnFunction_def)
    let ?G0 = "initialInfo\<lparr> GCBI_DelaySlotSize := fst md, PC := snd md \<rparr>"
    from Inr md have v: "visitBlocks ?G0 0 F = Inr G'"
      and s: "Dispatcher G' \<noteq> None" "AnyPC G' \<noteq> None" "UnexpectedPC G' \<noteq> None"
      by (auto simp: runOnFunction_def split: sum.splits if_splits)
    have "\<exists>i<length F. classifiedAs (F ! i) DispatcherBlock"
      using visitBlocks_Dispatcher [OF v] s(1) by (auto simp: initialInfo_def)
    moreover have "\<exists>i<length F. classifiedAs (F ! i) AnyPCBlock"
      using visitBlocks_AnyPC [OF v] s(2) by (auto simp: initialInfo_def)
    moreover have "\<exists>i<length F. classifiedAs (F ! i) UnexpectedPCBlock"
      using visitBlocks_UnexpectedPC [OF v] s(3) by (auto simp: initialInfo_def)
    ultimately show ?thesis using missing by blast
  qed
  show ?thesis using 1 2 3 by blast
qed

theorem C4_missing_singleton_witness:
  "runOnFunction initialInfo (Some (0, ''pc'')) exampleFunction = Inr exampleInfo
   \<and> Dispatcher exampleInfo \<noteq> None \<and> AnyPC exampleInfo \<noteq> None
   \<and> UnexpectedPC exampleInfo \<noteq> None
   \<and> visitBlocks (initialInfo\<lparr> GCBI_DelaySlotSize := fst (0, ''pc''), PC := snd (0, ''pc'') \<rparr>)
        0 missingUnexpectedPC
       = Inr \<lparr> GCBI_DelaySlotSize = 0, PC = ''pc'', Dispatcher = Some 0, AnyPC = Some 1,
               UnexpectedPC = None, JumpTargets = [0x1000 \<mapsto> 2] \<rparr>
   \<and> runOnFunction initialInfo (Some (0, ''pc'')) missingUnexpectedPC = Inl MissingSingleton
   \<and> isl (runOnFunction initialInfo (Some (0, ''pc'')) missingUnexpectedPC)"
proof -
  let ?G1 = "\<lparr> GCBI_DelaySlotSize = 0, PC = ''pc'', Dispatcher = Some 0, AnyPC = Some 1,
               UnexpectedPC = None, JumpTargets = [0x1000 \<mapsto> (2 :: nat)] \<rparr>"
  have v: "visitBlocks (initialInfo\<lparr> GCBI_DelaySlotSize := fst (0, ''pc''), PC := snd (0, ''pc'') \<rparr>)
        0 missingUnexpectedPC = Inr ?G1"
    by (simp add: initialInfo_def missingUnexpectedPC_def visitBlock_def jumpTargetAddress_def
        getArgValue_def eval_nat_numeral)
  have u: "UnexpectedPC ?G1 = None" by simp
  have m: "\<forall>i<length missingUnexpectedPC. \<not> classifiedAs (missingUnexpectedPC ! i) UnexpectedPCBlock"
    by (simp add: missingUnexpectedPC_def classifiedAs_def All_less_Suc)
  note t = C4_missing_singleton [where G = initialInfo and Tuple = "Some (0, ''pc'')"
      and F = exampleFunction and G' = exampleInfo]
  note t' = C4_missing_singleton [where G = initialInfo and Tuple = "Some (0, ''pc'')"
      and F = missingUnexpectedPC and md = "(0, ''pc'')" and ?G1.0 = ?G1]
  have a: "Dispatcher exampleInfo \<noteq> None \<and> AnyPC exampleInfo \<noteq> None
      \<and> UnexpectedPC exampleInfo \<noteq> None"
    using t runOnFunction_example by blast
  have b: "runOnFunction initialInfo (Some (0, ''pc'')) missingUnexpectedPC = Inl MissingSingleton"
    using t' v u by blast
  have c: "isl (runOnFunction initialInfo (Some (0, ''pc'')) missingUnexpectedPC)"
    using t' m by blast
  show ?thesis
    using runOnFunction_example a v b c by simp
qed

text \<open>
  C3, as the code has it. After classification the table of jump targets maps an
  address to the last visited jump target block whose leading marker carries that
  address, and to nothing when there is none. So for every visited jump target block
  the address of its leading marker is a key of the table, and \<open>jumpTargetFor\<close> of
  that address returns the block itself whenever no later jump target block carries the
  same address. Nothing in the classification keeps two jump target blocks from carrying
  the same address.
\<close>

theorem C3_jump_targets:
  "runOnFunction initialInfo Tuple F = Inr G' \<longrightarrow>
     (\<forall>b<length F. classifiedAs (F ! b) JumpTargetBlock \<longrightarrow>
        (\<exists>a. jumpTargetAddress (F ! b) = Inr a
           \<and> (\<exists>t. jumpTargetFor G' a = Some t \<and> b \<le> t \<and> t < length F \<and> jumpTargetAt (F ! t) a)
           \<and> ((\<forall>j<length F. b < j \<longrightarrow> \<not> jumpTargetAt (F ! j) a)
                \<longrightarrow> jumpTargetFor G' a = Some b)))
     \<and> (\<forall>a t. jumpTargetFor G' a = Some t \<longleftrightarrow>
           t < length F \<and> jumpTargetAt (F ! t) a
           \<and> (\<forall>j<length F. t < j \<longrightarrow> \<not> jumpTargetAt (F ! j) a))"
proof
  assume r: "runOnFunction initialInfo Tuple F = Inr G'"
  then obtain md where md: "Tuple = Some md"
    by (cases Tuple) (auto simp: runOnFunction_def)
  let ?G0 = "initialInfo\<lparr> GCBI_DelaySlotSize := fst md, PC := snd md \<rparr>"
  from r md have 1: "visitBlocks ?G0 0 F = Inr G'"
    by (auto simp: runOnFunction_def split: sum.splits if_splits)
  have char: "jumpTargetFor G' a = Some t \<longleftrightarrow>
           t < length F \<and> jumpTargetAt (F ! t) a
           \<and> (\<forall>j<length F. t < j \<longrightarrow> \<not> jumpTargetAt (F ! j) a)" for a t
    using visitBlocks_JumpTargets [OF 1, of a t]
    by (auto simp: initialInfo_def jumpTargetFor_def)
  have addr: "\<exists>a. jumpTargetAddress (F ! b) = Inr a"
    if "b < length F" "classifiedAs (F ! b) JumpTargetBlock" for b
    using visitBlocks_JumpTargets [OF 1] that by blast
  have last: "\<exists>t. b \<le> t \<and> t < length F \<and> jumpTargetAt (F ! t) a
           \<and> (\<forall>j<length F. t < j \<longrightarrow> \<not> jumpTargetAt (F ! j) a)"
    if "b < length F" "jumpTargetAt (F ! b) a" for b a
    using that
  proof (induction "length F - b" arbitrary: b rule: less_induct)
    case less
    show ?case
    proof (cases "\<forall>j<length F. b < j \<longrightarrow> \<not> jumpTargetAt (F ! j) a")
      case True
      then show ?thesis using less.prems by blast
    next
      case False
      then obtain j where j: "j < length F" "b < j" "jumpTargetAt (F ! j) a" by blast
      then have "length F - j < length F - b" by simp
      from less.hyps [OF this j(1) j(3)] obtain t where
        "j \<le> t \<and> t < length F \<and> jumpTargetAt (F ! t) a
           \<and> (\<forall>j<length F. t < j \<longrightarrow> \<not> jumpTargetAt (F ! j) a)" ..
      then show ?thesis using j(2) by (intro exI [of _ t]) simp
    qed
  qed
  show "(\<forall>b<length F. classifiedAs (F ! b) JumpTargetBlock \<longrightarrow>
        (\<exists>a. jumpTargetAddress (F ! b) = Inr a
           \<and> (\<exists>t. jumpTargetFor G' a = Some t \<and> b \<le> t \<and> t < length F \<and> jumpTargetAt (F ! t) a)
           \<and> ((\<forall>j<length F. b < j \<longrightarrow> \<not> jumpTargetAt (F ! j) a)
                \<longrightarrow> jumpTargetFor G' a = Some b)))
     \<and> (\<forall>a t. jumpTargetFor G' a = Some t \<longleftrightarrow>
           t < length F \<and> jumpTargetAt (F ! t) a
           \<and> (\<forall>j<length F. t < j \<longrightarrow> \<not> jumpTargetAt (F ! j) a))"
  proof (intro conjI allI impI)
    fix b assume b: "b < length F" "classifiedAs (F ! b) JumpTargetBlock"
    from addr [OF b] obtain a where a: "jumpTargetAddress (F ! b) = Inr a" ..
    then have jt: "jumpTargetAt (F ! b) a" using b by (simp add: jumpTargetAt_def)
    from last [OF b(1) jt] obtain t where t: "b \<le> t" "t < length F" "jumpTargetAt (F ! t) a"
      "\<forall>j<length F. t < j \<longrightarrow> \<not> jumpTargetAt (F ! j) a" by blast
    then have "jumpTargetFor G' a = Some t" by (simp add: char)
    moreover have "jumpTargetFor G' a = Some b"
      if "\<forall>j<length F. b < j \<longrightarrow> \<not> jumpTargetAt (F ! j) a"
      using that b jt by (simp add: char)
    ultimately show "\<exists>a. jumpTargetAddress (F ! b) = Inr a
           \<and> (\<exists>t. jumpTargetFor G' a = Some t \<and> b \<le> t \<and> t < length F \<and> jumpTargetAt (F ! t) a)
           \<and> ((\<forall>j<length F. b < j \<longrightarrow> \<not> jumpTargetAt (F ! j) a)
                \<longrightarrow> jumpTargetFor G' a = Some b)"
      using a t by blast
  next
    fix a t show "jumpTargetFor G' a = Some t \<longleftrightarrow>
           t < length F \<and> jumpTargetAt (F ! t) a
           \<and> (\<forall>j<length F. t < j \<longrightarrow> \<not> jumpTargetAt (F ! j) a)"
      by (rule char)
  qed
qed

theorem C3_jump_targets_witness:
  "runOnFunction initialInfo (Some (0, ''pc'')) exampleFunction = Inr exampleInfo
   \<and> classifiedAs (exampleFunction ! 3) JumpTargetBlock
   \<and> jumpTargetAddress (exampleFunction ! 3) = Inr 0x1000
   \<and> jumpTargetFor exampleInfo 0x1000 = Some 3
   \<and> classifiedAs (exampleFunction ! 4) JumpTargetBlock
   \<and> jumpTargetAddress (exampleFunction ! 4) = Inr 0x1004
   \<and> jumpTargetFor exampleInfo 0x1004 = Some 4"
proof -
  have l: "3 < length exampleFunction" "4 < length exampleFunction"
    by (simp_all add: exampleFunction_def)
  have c: "classifiedAs (exampleFunction ! 3) JumpTargetBlock"
      "classifiedAs (exampleFunction ! 4) JumpTargetBlock"
    by (simp_all add: exampleFunction_def classifiedAs_def)
  have a: "jumpTargetAddress (exampleFunction ! 3) = Inr 0x1000"
      "jumpTargetAddress (exampleFunction ! 4) = Inr 0x1004"
    by (simp_all add: exampleFunction_def jumpTargetAddress_def getArgValue_def)
  have n3: "\<forall>j<length exampleFunction. 3 < j \<longrightarrow> \<not> jumpTargetAt (exampleFunction ! j) 0x1000"
    by (simp add: exampleFunction_def jumpTargetAt_def jumpTargetAddress_def getArgValue_def
        All_less_Suc)
  have n4: "\<forall>j<length exampleFunction. 4 < j \<longrightarrow> \<not> jumpTargetAt (exampleFunction ! j) 0x1004"
    by (simp add: exampleFunction_def All_less_Suc)
  note t = C3_jump_targets [of "Some (0, ''pc'')" exampleFunction exampleInfo,
      THEN mp, OF runOnFunction_example, THEN conjunct1]
  have "jumpTargetFor exampleInfo 0x1000 = Some 3"
    using t [rule_format, OF l(1) c(1)] a(1) n3 by auto
  moreover have "jumpTargetFor exampleInfo 0x1004 = Some 4"
    using t [rule_format, OF l(2) c(2)] a(2) n4 by auto
  ultimately show ?thesis
    using runOnFunction_example c a by simp
qed

text \<open>
  C3, as the claim states it, fails. In this function blocks 3 and 4 are both visited
  jump target blocks whose leading markers carry the address 0x1000. Classification
  returns; the table maps 0x1000 to block 4, the later one, so \<open>jumpTargetFor\<close> of
  the address of block 3 does not return block 3, and two distinct jump target blocks
  share an address.
\<close>

theorem C3_shared_address_counterexample:
  "runOnFunction initialInfo (Some (0, ''pc'')) sharedAddress = Inr sharedAddressInfo
   \<and> classifiedAs (sharedAddress ! 3) JumpTargetBlock
   \<and> jumpTargetAddress (sharedAddress ! 3) = Inr 0x1000
   \<and> classifiedAs (sharedAddress ! 4) JumpTargetBlock
   \<and> jumpTargetAddress (sharedAddress ! 4) = Inr 0x1000
   \<and> jumpTargetFor sharedAddressInfo 0x1000 = Some 4
   \<and> jumpTargetFor sharedAddressInfo 0x1000 \<noteq> Some 3"
  using runOnFunction_sharedAddress
  by (simp add: sharedAddress_def sharedAddressInfo_def classifiedAs_def jumpTargetAddress_def
      getArgValue_def jumpTargetFor_def)

subsection \<open>The architecture descriptor\<close>

text \<open>
  C10. A default-constructed Architecture descriptor has instruction alignment 1,
  default alignment 1, little endianess (so \<open>isLittleEndian\<close> holds), pointer size 64
  and delay slot size 0, whatever the uninitialised \<open>Type\<close> member holds.
\<close>

theorem C10_default_architecture:
  "instructionAlignment (Architecture_default ty) = 1
   \<and> defaultAlignment (Architecture_default ty) = 1
   \<and> endianess (Architecture_default ty) = LittleEndian
   \<and> isLittleEndian (Architecture_default ty)
   \<and> pointerSize (Architecture_default ty) = 64
   \<and> delaySlotSize (Architecture_default ty) = 0"
  by (simp add: Architecture_default_def instructionAlignment_def defaultAlignment_def
      endianess_def isLittleEndian_def pointerSize_def delaySlotSize_def)

end
